theory Spec2Isabelle
  imports Main
begin

section \<open>Symbol tables\<close>

text \<open>
  The notation codec of \<^verbatim>\<open>notation.go\<close> uses squares, pieces, moves and positions that are
  declared in other files of the package. They are modelled here from the data model of
  the specification; the functions of \<^verbatim>\<open>notation.go\<close> itself are translated line by line.
\<close>

text \<open>Modelled from the spec: the column of a square, 'a' to 'h'.\<close>

datatype File = FileA | FileB | FileC | FileD | FileE | FileF | FileG | FileH

text \<open>Modelled from the spec: the row of a square, '1' to '8'.\<close>

datatype Rank = Rank1 | Rank2 | Rank3 | Rank4 | Rank5 | Rank6 | Rank7 | Rank8

text \<open>
  Modelled from the spec: the type \<^verbatim>\<open>Square\<close> is one of 64 board cells and exposes its
  file and its rank.
\<close>

datatype Square = Sq (Square_File: File) (Square_Rank: Rank)

abbreviation A1 :: Square where "A1 \<equiv> Sq FileA Rank1"
abbreviation C1 :: Square where "C1 \<equiv> Sq FileC Rank1"
abbreviation E1 :: Square where "E1 \<equiv> Sq FileE Rank1"
abbreviation G1 :: Square where "G1 \<equiv> Sq FileG Rank1"
abbreviation C8 :: Square where "C8 \<equiv> Sq FileC Rank8"
abbreviation E8 :: Square where "E8 \<equiv> Sq FileE Rank8"
abbreviation G8 :: Square where "G8 \<equiv> Sq FileG Rank8"

text \<open>Modelled from the spec: the one-character text of a file (\<^verbatim>\<open>File.String\<close>).\<close>

fun File_String :: "File \<Rightarrow> string" where
  "File_String FileA = ''a''"
| "File_String FileB = ''b''"
| "File_String FileC = ''c''"
| "File_String FileD = ''d''"
| "File_String FileE = ''e''"
| "File_String FileF = ''f''"
| "File_String FileG = ''g''"
| "File_String FileH = ''h''"

text \<open>Modelled from the spec: the one-character text of a rank (\<^verbatim>\<open>Rank.String\<close>).\<close>

fun Rank_String :: "Rank \<Rightarrow> string" where
  "Rank_String Rank1 = ''1''"
| "Rank_String Rank2 = ''2''"
| "Rank_String Rank3 = ''3''"
| "Rank_String Rank4 = ''4''"
| "Rank_String Rank5 = ''5''"
| "Rank_String Rank6 = ''6''"
| "Rank_String Rank7 = ''7''"
| "Rank_String Rank8 = ''8''"

text \<open>
  Modelled from the spec: the canonical two-character text of a square
  (\<^verbatim>\<open>Square.String\<close>), such as "e4".
\<close>

definition Square_String :: "Square \<Rightarrow> string" where
  "Square_String sq = File_String (Square_File sq) @ Rank_String (Square_Rank sq)"

text \<open>
  Modelled from the spec: the file and the rank that a character of a square text stands
  for; they read the table \<^verbatim>\<open>strToSquareMap\<close> below.
\<close>

fun fileFromChar :: "char \<Rightarrow> File option" where
  "fileFromChar c =
     (if c = CHR ''a'' then Some FileA else if c = CHR ''b'' then Some FileB
      else if c = CHR ''c'' then Some FileC else if c = CHR ''d'' then Some FileD
      else if c = CHR ''e'' then Some FileE else if c = CHR ''f'' then Some FileF
      else if c = CHR ''g'' then Some FileG else if c = CHR ''h'' then Some FileH
      else None)"

fun rankFromChar :: "char \<Rightarrow> Rank option" where
  "rankFromChar c =
     (if c = CHR ''1'' then Some Rank1 else if c = CHR ''2'' then Some Rank2
      else if c = CHR ''3'' then Some Rank3 else if c = CHR ''4'' then Some Rank4
      else if c = CHR ''5'' then Some Rank5 else if c = CHR ''6'' then Some Rank6
      else if c = CHR ''7'' then Some Rank7 else if c = CHR ''8'' then Some Rank8
      else None)"

text \<open>
  Modelled from the spec: the table \<^verbatim>\<open>strToSquareMap\<close> from board-coordinate text to
  squares. Its keys are the 64 two-character square texts; a lookup of any other string
  finds nothing.
\<close>

fun strToSquareMap :: "string \<Rightarrow> Square option" where
  "strToSquareMap [f, r] =
     (case fileFromChar f of
        None \<Rightarrow> None
      | Some fl \<Rightarrow> (case rankFromChar r of None \<Rightarrow> None | Some rk \<Rightarrow> Some (Sq fl rk)))"
| "strToSquareMap _ = None"

text \<open>Modelled from the spec: the enumeration \<^verbatim>\<open>PieceType\<close> with its "absent" sentinel.\<close>

datatype PieceType = King | Queen | Rook | Bishop | Knight | Pawn | NoPieceType

text \<open>
  Modelled from the spec: the lowercase letter of a piece type (\<^verbatim>\<open>PieceType.String\<close>),
  which UCI appends for a promotion; a pawn and the absent piece type have no letter.
\<close>

fun PieceType_String :: "PieceType \<Rightarrow> string" where
  "PieceType_String King = ''k''"
| "PieceType_String Queen = ''q''"
| "PieceType_String Rook = ''r''"
| "PieceType_String Bishop = ''b''"
| "PieceType_String Knight = ''n''"
| "PieceType_String Pawn = ''''"
| "PieceType_String NoPieceType = ''''"

text \<open>Modelled from the spec: the color of a piece, with the sentinel for no piece.\<close>

datatype Color = NoColor | White | Black

text \<open>
  Modelled from the spec: what a square holds is a piece type with a color, or no piece.
\<close>

datatype Piece =
    WhiteKing | WhiteQueen | WhiteRook | WhiteBishop | WhiteKnight | WhitePawn
  | BlackKing | BlackQueen | BlackRook | BlackBishop | BlackKnight | BlackPawn
  | NoPiece

text \<open>Modelled from the spec: the type and the color of a piece (\<^verbatim>\<open>Type\<close>, \<^verbatim>\<open>Color\<close>).\<close>

fun Piece_Type :: "Piece \<Rightarrow> PieceType" where
  "Piece_Type WhiteKing = King"
| "Piece_Type WhiteQueen = Queen"
| "Piece_Type WhiteRook = Rook"
| "Piece_Type WhiteBishop = Bishop"
| "Piece_Type WhiteKnight = Knight"
| "Piece_Type WhitePawn = Pawn"
| "Piece_Type BlackKing = King"
| "Piece_Type BlackQueen = Queen"
| "Piece_Type BlackRook = Rook"
| "Piece_Type BlackBishop = Bishop"
| "Piece_Type BlackKnight = Knight"
| "Piece_Type BlackPawn = Pawn"
| "Piece_Type NoPiece = NoPieceType"

fun Piece_Color :: "Piece \<Rightarrow> Color" where
  "Piece_Color WhiteKing = White"
| "Piece_Color WhiteQueen = White"
| "Piece_Color WhiteRook = White"
| "Piece_Color WhiteBishop = White"
| "Piece_Color WhiteKnight = White"
| "Piece_Color WhitePawn = White"
| "Piece_Color BlackKing = Black"
| "Piece_Color BlackQueen = Black"
| "Piece_Color BlackRook = Black"
| "Piece_Color BlackBishop = Black"
| "Piece_Color BlackKnight = Black"
| "Piece_Color BlackPawn = Black"
| "Piece_Color NoPiece = NoColor"

section \<open>Moves and positions\<close>

text \<open>Modelled from the spec: the semantic tags of a move.\<close>

datatype MoveTag = KingSideCastle | QueenSideCastle | Capture | EnPassant | Check

text \<open>
  Modelled from the spec: a move has an origin, a destination, a promotion piece type
  and a set of tags, which are additive flags.
\<close>

record Move =
  S1 :: Square
  S2 :: Square
  promo :: PieceType
  tags :: "MoveTag set"

text \<open>
  Modelled from the spec: testing a tag (\<^verbatim>\<open>HasTag\<close>) and adding one (\<^verbatim>\<open>addTag\<close>); adding a
  tag that the move has changes nothing.
\<close>

definition Move_HasTag :: "Move \<Rightarrow> MoveTag \<Rightarrow> bool" where
  "Move_HasTag m t = (t \<in> tags m)"

definition Move_addTag :: "Move \<Rightarrow> MoveTag \<Rightarrow> Move" where
  "Move_addTag m t = m\<lparr>tags := insert t (tags m)\<rparr>"

text \<open>Modelled from the spec: the status of a game; only \<open>Checkmate\<close> is tested here.\<close>

datatype Method = NoMethod | Checkmate | Stalemate | Resignation | DrawOffer

text \<open>
  Modelled from the spec: the position is an external collaborator that is only read. It
  exposes the piece on each square (\<open>board\<close>), the en-passant target square if there is
  one, the ordered list of legal moves (\<^verbatim>\<open>ValidMoves\<close>), the text used in error messages
  (\<^verbatim>\<open>String\<close>) and, for each move, the status of the position that applying the move
  gives (\<^verbatim>\<open>pos.Update(move).Status()\<close>). Move generation and the update are not part of
  the codec, so a position carries their answers.
\<close>

record Position =
  board :: "Square \<Rightarrow> Piece"
  enPassantSquare :: "Square option"
  ValidMoves :: "Move list"
  Position_String :: string
  Update_Status :: "Move \<Rightarrow> Method"

section \<open>Text normalizer\<close>

text \<open>
  \<^verbatim>\<open>strings.Replace(s, old, "", -1)\<close>: one pass from the left that drops each occurrence
  of \<open>old\<close> and goes on behind it, so the occurrences dropped do not overlap. With an
  empty \<open>old\<close> and an empty replacement the string is unchanged.
\<close>

function Replace :: "string \<Rightarrow> string \<Rightarrow> string" where
  "Replace [] old = []"
| "Replace (c # cs) old =
     (if old \<noteq> [] \<and> take (length old) (c # cs) = old
      then Replace (drop (length old) (c # cs)) old
      else c # Replace cs old)"
  by pat_completeness auto
termination
  by (relation "measure (\<lambda>(s, old). length s)") auto

definition removeSubstrings :: "string \<Rightarrow> string list \<Rightarrow> string" where
  "removeSubstrings s subs = foldl Replace s subs"

abbreviation decorations :: "string list" where
  "decorations \<equiv> [''?'', ''!'', ''+'', ''#'', ''e.p.'']"

section \<open>Piece letters\<close>

fun charFromPieceType :: "PieceType \<Rightarrow> string" where
  "charFromPieceType King = ''K''"
| "charFromPieceType Queen = ''Q''"
| "charFromPieceType Rook = ''R''"
| "charFromPieceType Bishop = ''B''"
| "charFromPieceType Knight = ''N''"
| "charFromPieceType _ = ''''"

definition charForPromo :: "PieceType \<Rightarrow> string" where
  "charForPromo p =
     (let c = charFromPieceType p in if c \<noteq> '''' then ''='' @ c else c)"

definition pieceTypeFromChar :: "string \<Rightarrow> PieceType" where
  "pieceTypeFromChar c =
     (if c = ''q'' then Queen
      else if c = ''r'' then Rook
      else if c = ''b'' then Bishop
      else if c = ''n'' then Knight
      else NoPieceType)"

section \<open>Check and mate suffix\<close>

definition getCheckChar :: "Position \<Rightarrow> Move \<Rightarrow> string" where
  "getCheckChar pos move =
     (if \<not> Move_HasTag move Check then ''''
      else if Update_Status pos move = Checkmate then ''#''
      else ''+'')"

section \<open>Disambiguation resolver\<close>

text \<open>
  The loop of \<^verbatim>\<open>formS1\<close> over the legal moves; the state is the three flags
  \<open>(req, fileReq, rankReq)\<close>.
\<close>

fun formS1_loop :: "Position \<Rightarrow> Move \<Rightarrow> Piece \<Rightarrow> Move list \<Rightarrow> bool \<times> bool \<times> bool
    \<Rightarrow> bool \<times> bool \<times> bool" where
  "formS1_loop pos m p [] st = st"
| "formS1_loop pos m p (mv # moves) (req, fileReq, rankReq) =
     (if S1 mv \<noteq> S1 m \<and> S2 mv = S2 m \<and> p = board pos (S1 mv)
      then formS1_loop pos m p moves
             (True,
              (if Square_Rank (S1 mv) = Square_Rank (S1 m) then True else fileReq),
              (if Square_File (S1 mv) = Square_File (S1 m) then True else rankReq))
      else formS1_loop pos m p moves (req, fileReq, rankReq))"

definition formS1 :: "Position \<Rightarrow> Move \<Rightarrow> string" where
  "formS1 pos m =
     (let p = board pos (S1 m) in
      if Piece_Type p = Pawn then ''''
      else
        (case formS1_loop pos m p (ValidMoves pos) (False, False, False) of
           (req, fileReq, rankReq) \<Rightarrow>
             (let s1 = (if fileReq \<or> \<not> rankReq \<and> req
                        then File_String (Square_File (S1 m)) else '''')
              in if rankReq then s1 @ Rank_String (Square_Rank (S1 m)) else s1)))"

section \<open>The three codecs\<close>

type_synonym error = string

subsection \<open>UCI\<close>

text \<open>
  The position of the UCI codec is a pointer that may be nil: \<open>None\<close> is the nil position.
  Formatting a nil position with \<^verbatim>\<open>%s\<close> prints \<^verbatim>\<open><nil>\<close>.
\<close>

definition fmt_Position :: "Position option \<Rightarrow> string" where
  "fmt_Position pos = (case pos of None \<Rightarrow> ''<nil>'' | Some p \<Rightarrow> Position_String p)"

definition UCINotation_Encode :: "Position option \<Rightarrow> Move \<Rightarrow> string" where
  "UCINotation_Encode pos m =
     Square_String (S1 m) @ Square_String (S2 m) @ PieceType_String (promo m)"

text \<open>
  The second half of \<^verbatim>\<open>Decode\<close>, which runs when the position is not nil: the tags are
  inferred from the piece on the origin square \<open>S1\<close> and from the destination \<open>S2\<close>.
\<close>

definition UCINotation_Decode_tags :: "Position \<Rightarrow> Move \<Rightarrow> Move" where
  "UCINotation_Decode_tags pos m =
     (let p = board pos (S1 m);
          m1 = (if Piece_Type p = King then
                  (if (S1 m = E1 \<and> S2 m = G1) \<or> (S1 m = E8 \<and> S2 m = G8)
                   then Move_addTag m KingSideCastle
                   else if (S1 m = E1 \<and> S2 m = C1) \<or> (S1 m = E8 \<and> S2 m = C8)
                   then Move_addTag m QueenSideCastle
                   else m)
                else if Piece_Type p = Pawn \<and> Some (S2 m) = enPassantSquare pos
                then Move_addTag (Move_addTag m EnPassant) Capture
                else m);
          c1 = Piece_Color p;
          c2 = Piece_Color (board pos (S2 m))
      in if c2 \<noteq> NoColor \<and> c1 \<noteq> c2 then Move_addTag m1 Capture else m1)"

definition UCINotation_Decode :: "Position option \<Rightarrow> string \<Rightarrow> error + Move" where
  "UCINotation_Decode pos s =
     (let l = length s;
          err = ''chess: failed to decode long algebraic notation text '' @ [CHR 0x22] @ s
                @ [CHR 0x22] @ '' for position '' @ fmt_Position pos
      in
      if l < 4 \<or> l > 5 then Inl err
      else case strToSquareMap (take 2 s) of
        None \<Rightarrow> Inl err
      | Some sq1 \<Rightarrow>
        (case strToSquareMap (take 2 (drop 2 s)) of
           None \<Rightarrow> Inl err
         | Some sq2 \<Rightarrow>
           (let prm = (if l = 5 then pieceTypeFromChar (take 1 (drop 4 s)) else NoPieceType)
            in
            if l = 5 \<and> prm = NoPieceType then Inl err
            else
              (let m = \<lparr>S1 = sq1, S2 = sq2, promo = prm, tags = {}\<rparr> in
               case pos of
                 None \<Rightarrow> Inr m
               | Some ps \<Rightarrow> Inr (UCINotation_Decode_tags ps m)))))"

subsection \<open>Standard algebraic notation\<close>

definition AlgebraicNotation_Encode :: "Position \<Rightarrow> Move \<Rightarrow> string" where
  "AlgebraicNotation_Encode pos m =
     (let checkChar = getCheckChar pos m in
      if Move_HasTag m KingSideCastle then ''O-O'' @ checkChar
      else if Move_HasTag m QueenSideCastle then ''O-O-O'' @ checkChar
      else
        (let p = board pos (S1 m);
             pChar = charFromPieceType (Piece_Type p);
             S1Str = formS1 pos m;
             capChar = (if Move_HasTag m Capture \<or> Move_HasTag m EnPassant
                        then (if Piece_Type p = Pawn \<and> S1Str = ''''
                              then File_String (Square_File (S1 m)) @ ''x''
                              else ''x'')
                        else '''');
             promoText = charForPromo (promo m)
         in pChar @ S1Str @ capChar @ Square_String (S2 m) @ promoText @ checkChar))"

text \<open>The loop of \<^verbatim>\<open>Decode\<close> over the legal moves; \<open>s\<close> is the stripped input.\<close>

fun AlgebraicNotation_Decode_loop :: "Position \<Rightarrow> string \<Rightarrow> Move list \<Rightarrow> Move option" where
  "AlgebraicNotation_Decode_loop pos s [] = None"
| "AlgebraicNotation_Decode_loop pos s (m # moves) =
     (let str = removeSubstrings (AlgebraicNotation_Encode pos m) decorations in
      if str = s then Some m else AlgebraicNotation_Decode_loop pos s moves)"

definition AlgebraicNotation_Decode :: "Position \<Rightarrow> string \<Rightarrow> error + Move" where
  "AlgebraicNotation_Decode pos s0 =
     (let s = removeSubstrings s0 decorations in
      case AlgebraicNotation_Decode_loop pos s (ValidMoves pos) of
        Some m \<Rightarrow> Inr m
      | None \<Rightarrow> Inl (''chess: could not decode algebraic notation '' @ s
                     @ '' for position '' @ Position_String pos))"

subsection \<open>Long algebraic notation\<close>

definition LongAlgebraicNotation_Encode :: "Position \<Rightarrow> Move \<Rightarrow> string" where
  "LongAlgebraicNotation_Encode pos m =
     (let checkChar = getCheckChar pos m in
      if Move_HasTag m KingSideCastle then ''O-O'' @ checkChar
      else if Move_HasTag m QueenSideCastle then ''O-O-O'' @ checkChar
      else
        (let p = board pos (S1 m);
             pChar = charFromPieceType (Piece_Type p);
             S1Str = Square_String (S1 m);
             capChar = (if Move_HasTag m Capture \<or> Move_HasTag m EnPassant
                        then (if Piece_Type p = Pawn \<and> S1Str = ''''
                              then File_String (Square_File (S1 m)) @ ''x''
                              else ''x'')
                        else '''');
             promoText = charForPromo (promo m)
         in pChar @ S1Str @ capChar @ Square_String (S2 m) @ promoText @ checkChar))"

fun LongAlgebraicNotation_Decode_loop :: "Position \<Rightarrow> string \<Rightarrow> Move list \<Rightarrow> Move option"
  where
  "LongAlgebraicNotation_Decode_loop pos s [] = None"
| "LongAlgebraicNotation_Decode_loop pos s (m # moves) =
     (let str = removeSubstrings (LongAlgebraicNotation_Encode pos m) decorations in
      if str = s then Some m else LongAlgebraicNotation_Decode_loop pos s moves)"

definition LongAlgebraicNotation_Decode :: "Position \<Rightarrow> string \<Rightarrow> error + Move" where
  "LongAlgebraicNotation_Decode pos s0 =
     (let s = removeSubstrings s0 decorations in
      case LongAlgebraicNotation_Decode_loop pos s (ValidMoves pos) of
        Some m \<Rightarrow> Inr m
      | None \<Rightarrow> Inl (''chess: could not decode long algebraic notation '' @ s
                     @ '' for position '' @ Position_String pos))"

section \<open>The claims' own notions\<close>

text \<open>
  The definitions of this section are not code of the codec. They spell out, in the words
  of the specification, the notions its claims use, so that the functions above can be
  compared with them.
\<close>

subsection \<open>Stripping decorations\<close>

definition strip :: "string \<Rightarrow> string" where
  "strip s = removeSubstrings s decorations"

text \<open>A character that is none of the four one-character decorations.\<close>

abbreviation unmarked :: "char \<Rightarrow> bool" where
  "unmarked x \<equiv> x \<noteq> CHR ''?'' \<and> x \<noteq> CHR ''!'' \<and> x \<noteq> CHR ''+'' \<and> x \<noteq> CHR ''#''"

text \<open>
  A text is decorated by inserting decoration strings, one after the other, each at any
  place of the text built so far: \<open>decorated ds t s\<close> says that \<open>s\<close> comes from \<open>t\<close> by
  inserting the strings of the list \<open>ds\<close>, the last one of the list first.
\<close>

inductive decorated :: "string list \<Rightarrow> string \<Rightarrow> string \<Rightarrow> bool" where
  decorated_Nil: "decorated [] t t"
| decorated_Cons: "decorated ds t s \<Longrightarrow> decorated (d # ds) t (take i s @ d @ drop i s)"

subsection \<open>What an error message carries\<close>

text \<open>An error message carries a string when the string occurs in it.\<close>

fun contains :: "string \<Rightarrow> string \<Rightarrow> bool" where
  "contains [] sub = (sub = [])"
| "contains (c # cs) sub = (take (length sub) (c # cs) = sub \<or> contains cs sub)"

subsection \<open>UCI syntax\<close>

text \<open>
  The specification's conditions under which UCI text is rejected: the length is not 4 or
  5, or characters 0-1 or 2-3 are not a known square text, or there is a fifth character
  that is not one of q, r, b, n.
\<close>

definition UCI_malformed :: "string \<Rightarrow> bool" where
  "UCI_malformed s =
     ((length s \<noteq> 4 \<and> length s \<noteq> 5)
      \<or> strToSquareMap (take 2 s) = None
      \<or> strToSquareMap (take 2 (drop 2 s)) = None
      \<or> (length s = 5 \<and> s ! 4 \<notin> {CHR ''q'', CHR ''r'', CHR ''b'', CHR ''n''}))"

text \<open>The specification's table from the fifth character to the promotion piece.\<close>

definition UCI_promo :: "string \<Rightarrow> PieceType" where
  "UCI_promo s =
     (if length s \<noteq> 5 then NoPieceType
      else if s ! 4 = CHR ''q'' then Queen
      else if s ! 4 = CHR ''r'' then Rook
      else if s ! 4 = CHR ''b'' then Bishop
      else if s ! 4 = CHR ''n'' then Knight
      else NoPieceType)"

subsection \<open>UCI tags\<close>

text \<open>
  The tags that UCI decoding gives a move from \<open>sq1\<close> to \<open>sq2\<close>, as one set: the closed
  form of the sequence of \<^verbatim>\<open>addTag\<close> calls.
\<close>

definition UCI_tags :: "Position \<Rightarrow> Square \<Rightarrow> Square \<Rightarrow> MoveTag set" where
  "UCI_tags ps sq1 sq2 =
     (if Piece_Type (board ps sq1) = King
         \<and> ((sq1 = E1 \<and> sq2 = G1) \<or> (sq1 = E8 \<and> sq2 = G8))
      then {KingSideCastle} else {})
     \<union> (if Piece_Type (board ps sq1) = King
           \<and> ((sq1 = E1 \<and> sq2 = C1) \<or> (sq1 = E8 \<and> sq2 = C8))
        then {QueenSideCastle} else {})
     \<union> (if Piece_Type (board ps sq1) = Pawn \<and> Some sq2 = enPassantSquare ps
        then {EnPassant, Capture} else {})
     \<union> (if Piece_Color (board ps sq2) \<noteq> NoColor
           \<and> Piece_Color (board ps sq1) \<noteq> Piece_Color (board ps sq2)
        then {Capture} else {})"

text \<open>The color opposite to a color; no color has no opposite.\<close>

fun Color_Other :: "Color \<Rightarrow> Color" where
  "Color_Other White = Black"
| "Color_Other Black = White"
| "Color_Other NoColor = NoColor"

text \<open>
  The tags as the specification words them: the capture tag is given when the destination
  holds a piece of the color opposite to the mover's.
\<close>

definition spec_UCI_tags :: "Position \<Rightarrow> Square \<Rightarrow> Square \<Rightarrow> MoveTag set" where
  "spec_UCI_tags ps sq1 sq2 =
     (if Piece_Type (board ps sq1) = King
         \<and> ((sq1 = E1 \<and> sq2 = G1) \<or> (sq1 = E8 \<and> sq2 = G8))
      then {KingSideCastle} else {})
     \<union> (if Piece_Type (board ps sq1) = King
           \<and> ((sq1 = E1 \<and> sq2 = C1) \<or> (sq1 = E8 \<and> sq2 = C8))
        then {QueenSideCastle} else {})
     \<union> (if Piece_Type (board ps sq1) = Pawn \<and> Some sq2 = enPassantSquare ps
        then {EnPassant, Capture} else {})
     \<union> (if board ps sq2 \<noteq> NoPiece
           \<and> Piece_Color (board ps sq2) = Color_Other (Piece_Color (board ps sq1))
        then {Capture} else {})"

subsection \<open>Competing moves\<close>

text \<open>
  The competitors of a move \<open>m\<close>: the legal moves of a piece of the same type and color,
  to the same destination, from a different origin.
\<close>

definition competitors :: "Position \<Rightarrow> Move \<Rightarrow> Move list" where
  "competitors pos m =
     filter (\<lambda>mv. Piece_Type (board pos (S1 mv)) = Piece_Type (board pos (S1 m))
                 \<and> Piece_Color (board pos (S1 mv)) = Piece_Color (board pos (S1 m))
                 \<and> S2 mv = S2 m \<and> S1 mv \<noteq> S1 m)
       (ValidMoves pos)"

definition spec_rankReq :: "Position \<Rightarrow> Move \<Rightarrow> bool" where
  "spec_rankReq pos m =
     list_ex (\<lambda>mv. Square_File (S1 mv) = Square_File (S1 m)) (competitors pos m)"

definition spec_fileReq :: "Position \<Rightarrow> Move \<Rightarrow> bool" where
  "spec_fileReq pos m =
     list_ex (\<lambda>mv. Square_Rank (S1 mv) = Square_Rank (S1 m)) (competitors pos m)"

subsection \<open>What move generation gives\<close>

text \<open>
  Modelled from the spec: the legal-move list comes from the external move generation,
  which the codec consumes and never checks. \<open>generated pos\<close> collects what that list is
  known to be like by the rules of chess. Every move starts from an occupied square,
  all movers have the color of the side to move, and the promotion piece is none or a
  queen, rook, bishop or knight. A pawn that does not capture stays on its file. No two
  moves of the list agree in origin, destination and promotion; at most one move is
  tagged as king-side and at most one as queen-side castle; and two pawn moves from one
  file to one destination start from the same square.
\<close>

definition generated :: "Position \<Rightarrow> bool" where
  "generated pos \<longleftrightarrow>
     (\<forall>x\<in>set (ValidMoves pos).
        Piece_Type (board pos (S1 x)) \<noteq> NoPieceType
        \<and> promo x \<in> {NoPieceType, Queen, Rook, Bishop, Knight}
        \<and> (Piece_Type (board pos (S1 x)) = Pawn
             \<and> \<not> Move_HasTag x Capture \<and> \<not> Move_HasTag x EnPassant
           \<longrightarrow> Square_File (S1 x) = Square_File (S2 x)))
     \<and> (\<forall>x\<in>set (ValidMoves pos). \<forall>y\<in>set (ValidMoves pos).
          Piece_Color (board pos (S1 x)) = Piece_Color (board pos (S1 y))
          \<and> (S1 x = S1 y \<and> S2 x = S2 y \<and> promo x = promo y \<longrightarrow> x = y)
          \<and> (Move_HasTag x KingSideCastle \<and> Move_HasTag y KingSideCastle \<longrightarrow> x = y)
          \<and> (Move_HasTag x QueenSideCastle \<and> Move_HasTag y QueenSideCastle \<longrightarrow> x = y)
          \<and> (Piece_Type (board pos (S1 x)) = Pawn \<and> Piece_Type (board pos (S1 y)) = Pawn
               \<and> S2 x = S2 y \<and> Square_File (S1 x) = Square_File (S1 y)
             \<longrightarrow> S1 x = S1 y))"

text \<open>
  The capture marker that both encoders compute into their variable \<^verbatim>\<open>capChar\<close>, as a
  function of the origin text \<^verbatim>\<open>S1Str\<close> that the encoder uses.
\<close>

definition capChar :: "Position \<Rightarrow> Move \<Rightarrow> string \<Rightarrow> string" where
  "capChar pos m S1Str =
     (if Move_HasTag m Capture \<or> Move_HasTag m EnPassant
      then (if Piece_Type (board pos (S1 m)) = Pawn \<and> S1Str = ''''
            then File_String (Square_File (S1 m)) @ ''x''
            else ''x'')
      else '''')"

text \<open>
  The text that the two encoders give a move that is not a castle, without the check or
  mate suffix.
\<close>

definition SAN_body :: "Position \<Rightarrow> Move \<Rightarrow> string" where
  "SAN_body pos m =
     charFromPieceType (Piece_Type (board pos (S1 m))) @ formS1 pos m
       @ capChar pos m (formS1 pos m) @ Square_String (S2 m) @ charForPromo (promo m)"

definition LAN_body :: "Position \<Rightarrow> Move \<Rightarrow> string" where
  "LAN_body pos m =
     charFromPieceType (Piece_Type (board pos (S1 m))) @ Square_String (S1 m)
       @ capChar pos m (Square_String (S1 m)) @ Square_String (S2 m)
       @ charForPromo (promo m)"

section \<open>Example positions\<close>

abbreviation Mv :: "Square \<Rightarrow> Square \<Rightarrow> MoveTag set \<Rightarrow> Move" where
  "Mv a b ts \<equiv> \<lparr>S1 = a, S2 = b, promo = NoPieceType, tags = ts\<rparr>"

text \<open>
  White king e1, white rooks a1 and h1, black king e8, white to move with both castling
  rights: \<^verbatim>\<open>4k3/8/8/8/8/8/8/R3K2R w KQ - 0 1\<close>. The list holds the 26 legal moves. The
  rook moves to a8 and h8 give check and not mate.
\<close>

definition pos_castle :: Position where
  "pos_castle =
     \<lparr>board = (\<lambda>_. NoPiece)(E1 := WhiteKing, A1 := WhiteRook, Sq FileH Rank1 := WhiteRook,
                               E8 := BlackKing),
      enPassantSquare = None,
      ValidMoves =
        [Mv A1 (Sq FileB Rank1) {}, Mv A1 C1 {}, Mv A1 (Sq FileD Rank1) {},
         Mv A1 (Sq FileA Rank2) {}, Mv A1 (Sq FileA Rank3) {}, Mv A1 (Sq FileA Rank4) {},
         Mv A1 (Sq FileA Rank5) {}, Mv A1 (Sq FileA Rank6) {}, Mv A1 (Sq FileA Rank7) {},
         Mv A1 (Sq FileA Rank8) {Check},
         Mv (Sq FileH Rank1) G1 {}, Mv (Sq FileH Rank1) (Sq FileF Rank1) {},
         Mv (Sq FileH Rank1) (Sq FileH Rank2) {}, Mv (Sq FileH Rank1) (Sq FileH Rank3) {},
         Mv (Sq FileH Rank1) (Sq FileH Rank4) {}, Mv (Sq FileH Rank1) (Sq FileH Rank5) {},
         Mv (Sq FileH Rank1) (Sq FileH Rank6) {}, Mv (Sq FileH Rank1) (Sq FileH Rank7) {},
         Mv (Sq FileH Rank1) (Sq FileH Rank8) {Check},
         Mv E1 (Sq FileD Rank1) {}, Mv E1 (Sq FileD Rank2) {}, Mv E1 (Sq FileE Rank2) {},
         Mv E1 (Sq FileF Rank2) {}, Mv E1 (Sq FileF Rank1) {},
         Mv E1 G1 {KingSideCastle}, Mv E1 C1 {QueenSideCastle}],
      Position_String = ''4k3/8/8/8/8/8/8/R3K2R w KQ - 0 1'',
      Update_Status = (\<lambda>_. NoMethod)\<rparr>"

text \<open>
  White king e2, white rooks a1 and h1, black king e8, white to move:
  \<^verbatim>\<open>4k3/8/8/8/8/8/4K3/R6R w - - 0 1\<close>. Both rooks reach every square from b1 to g1. The
  list holds the 34 legal moves.
\<close>

definition pos_rooks :: Position where
  "pos_rooks =
     \<lparr>board = (\<lambda>_. NoPiece)(Sq FileE Rank2 := WhiteKing, A1 := WhiteRook,
                               Sq FileH Rank1 := WhiteRook, E8 := BlackKing),
      enPassantSquare = None,
      ValidMoves =
        [Mv A1 (Sq FileB Rank1) {}, Mv A1 C1 {}, Mv A1 (Sq FileD Rank1) {}, Mv A1 E1 {},
         Mv A1 (Sq FileF Rank1) {}, Mv A1 G1 {},
         Mv A1 (Sq FileA Rank2) {}, Mv A1 (Sq FileA Rank3) {}, Mv A1 (Sq FileA Rank4) {},
         Mv A1 (Sq FileA Rank5) {}, Mv A1 (Sq FileA Rank6) {}, Mv A1 (Sq FileA Rank7) {},
         Mv A1 (Sq FileA Rank8) {Check},
         Mv (Sq FileH Rank1) G1 {}, Mv (Sq FileH Rank1) (Sq FileF Rank1) {},
         Mv (Sq FileH Rank1) E1 {}, Mv (Sq FileH Rank1) (Sq FileD Rank1) {},
         Mv (Sq FileH Rank1) C1 {}, Mv (Sq FileH Rank1) (Sq FileB Rank1) {},
         Mv (Sq FileH Rank1) (Sq FileH Rank2) {}, Mv (Sq FileH Rank1) (Sq FileH Rank3) {},
         Mv (Sq FileH Rank1) (Sq FileH Rank4) {}, Mv (Sq FileH Rank1) (Sq FileH Rank5) {},
         Mv (Sq FileH Rank1) (Sq FileH Rank6) {}, Mv (Sq FileH Rank1) (Sq FileH Rank7) {},
         Mv (Sq FileH Rank1) (Sq FileH Rank8) {Check},
         Mv (Sq FileE Rank2) (Sq FileD Rank1) {}, Mv (Sq FileE Rank2) E1 {},
         Mv (Sq FileE Rank2) (Sq FileF Rank1) {}, Mv (Sq FileE Rank2) (Sq FileD Rank2) {},
         Mv (Sq FileE Rank2) (Sq FileF Rank2) {}, Mv (Sq FileE Rank2) (Sq FileD Rank3) {},
         Mv (Sq FileE Rank2) (Sq FileE Rank3) {}, Mv (Sq FileE Rank2) (Sq FileF Rank3) {}],
      Position_String = ''4k3/8/8/8/8/8/4K3/R6R w - - 0 1'',
      Update_Status = (\<lambda>_. NoMethod)\<rparr>"

section \<open>Facts about the symbol tables\<close>

lemma strToSquareMap_String: "strToSquareMap (Square_String sq) = Some sq"
  by (cases sq; rename_tac f r; case_tac f; case_tac r) (simp_all add: Square_String_def)

lemma strToSquareMap_Some_iff: "strToSquareMap t = Some sq \<longleftrightarrow> t = Square_String sq"
proof
  assume h: "strToSquareMap t = Some sq"
  then obtain f r where t: "t = [f, r]"
    by (cases t rule: strToSquareMap.cases) auto
  from h show "t = Square_String sq" unfolding t
    by (auto simp: Square_String_def split: option.splits if_splits)
next
  assume "t = Square_String sq" then show "strToSquareMap t = Some sq"
    by (simp add: strToSquareMap_String)
qed

lemma length_Square_String [simp]: "length (Square_String sq) = 2"
  by (cases sq; rename_tac f r; case_tac f; case_tac r) (simp_all add: Square_String_def)

lemma tags_addTag [simp]:
  "S1 (Move_addTag m t) = S1 m" "S2 (Move_addTag m t) = S2 m"
  "promo (Move_addTag m t) = promo m" "tags (Move_addTag m t) = insert t (tags m)"
  by (simp_all add: Move_addTag_def)

section \<open>UCI decoding\<close>

lemma drop4_single: "length s = 5 \<Longrightarrow> drop 4 s = [s ! 4]"
proof -
  assume l: "length s = 5"
  have "s ! 4 # drop (Suc 4) s = drop 4 s"
    by (rule Cons_nth_drop_Suc) (simp add: l)
  then show ?thesis by (simp add: l)
qed

lemma pieceTypeFromChar_promo:
  "length s = 5 \<Longrightarrow> pieceTypeFromChar (take 1 (drop 4 s)) = UCI_promo s"
  "length s = 5 \<Longrightarrow> pieceTypeFromChar (drop 4 s) = UCI_promo s"
  by (simp_all add: drop4_single pieceTypeFromChar_def UCI_promo_def)

lemma not_malformed_length: "\<not> UCI_malformed s \<Longrightarrow> length s = 4 \<or> length s = 5"
  by (auto simp: UCI_malformed_def)

lemma not_malformed_promo:
  "\<not> UCI_malformed s \<Longrightarrow> length s = 5 \<Longrightarrow> UCI_promo s \<noteq> NoPieceType"
  by (auto simp: UCI_malformed_def UCI_promo_def)

lemma not_malformed_squares:
  "\<not> UCI_malformed s \<Longrightarrow>
   \<exists>sq1 sq2. strToSquareMap (take 2 s) = Some sq1 \<and> strToSquareMap (take 2 (drop 2 s)) = Some sq2"
  by (auto simp: UCI_malformed_def)

lemma UCI_promo_4: "length s = 4 \<Longrightarrow> UCI_promo s = NoPieceType"
  by (simp add: UCI_promo_def)

lemma UCINotation_Decode_malformed:
  assumes "UCI_malformed s"
  shows "UCINotation_Decode pos s =
         Inl (''chess: failed to decode long algebraic notation text '' @ [CHR 0x22] @ s
              @ [CHR 0x22] @ '' for position '' @ fmt_Position pos)"
proof (cases "length s < 4 \<or> length s > 5")
  case True
  then show ?thesis by (simp add: UCINotation_Decode_def Let_def)
next
  case len: False
  show ?thesis
  proof (cases "strToSquareMap (take 2 s)")
    case None
    then show ?thesis using len by (simp add: UCINotation_Decode_def Let_def)
  next
    case (Some sq1)
    note s1 = this
    show ?thesis
    proof (cases "strToSquareMap (take 2 (drop 2 s))")
      case None
      then show ?thesis using len s1 by (simp add: UCINotation_Decode_def Let_def)
    next
      case (Some sq2)
      with s1 len assms have l5: "length s = 5"
        and bad: "s ! 4 \<notin> {CHR ''q'', CHR ''r'', CHR ''b'', CHR ''n''}"
        by (auto simp: UCI_malformed_def)
      from bad l5 have "UCI_promo s = NoPieceType" by (simp add: UCI_promo_def)
      then show ?thesis using l5 s1 Some
        by (simp add: UCINotation_Decode_def Let_def pieceTypeFromChar_promo)
    qed
  qed
qed

lemma UCINotation_Decode_nil:
  assumes wf: "\<not> UCI_malformed s"
    and s1: "strToSquareMap (take 2 s) = Some sq1"
    and s2: "strToSquareMap (take 2 (drop 2 s)) = Some sq2"
  shows "UCINotation_Decode None s = Inr \<lparr>S1 = sq1, S2 = sq2, promo = UCI_promo s, tags = {}\<rparr>"
proof -
  from wf have "length s = 4 \<or> length s = 5" by (rule not_malformed_length)
  then show ?thesis
  proof
    assume l: "length s = 4"
    then show ?thesis using s1 s2
      by (simp add: UCINotation_Decode_def Let_def UCI_promo_4)
  next
    assume l: "length s = 5"
    with wf have "UCI_promo s \<noteq> NoPieceType" by (simp add: not_malformed_promo)
    then show ?thesis using s1 s2 l
      by (simp add: UCINotation_Decode_def Let_def pieceTypeFromChar_promo)
  qed
qed

lemma UCINotation_Decode_tags_eq:
  "UCINotation_Decode_tags ps m = m\<lparr>tags := tags m \<union> UCI_tags ps (S1 m) (S2 m)\<rparr>"
proof -
  have fields: "S1 (UCINotation_Decode_tags ps m) = S1 m"
    "S2 (UCINotation_Decode_tags ps m) = S2 m"
    "promo (UCINotation_Decode_tags ps m) = promo m"
    "Move.more (UCINotation_Decode_tags ps m) = Move.more m"
    by (simp_all add: UCINotation_Decode_tags_def Let_def Move_addTag_def)
  have tg: "tags (UCINotation_Decode_tags ps m) = tags m \<union> UCI_tags ps (S1 m) (S2 m)"
    unfolding UCINotation_Decode_tags_def Let_def Move_addTag_def UCI_tags_def
    by (simp split: if_split) blast
  show ?thesis using fields tg by (intro Move.equality) simp_all
qed

lemma UCINotation_Decode_pos:
  assumes wf: "\<not> UCI_malformed s"
    and s1: "strToSquareMap (take 2 s) = Some sq1"
    and s2: "strToSquareMap (take 2 (drop 2 s)) = Some sq2"
  shows "UCINotation_Decode (Some ps) s
         = Inr \<lparr>S1 = sq1, S2 = sq2, promo = UCI_promo s, tags = UCI_tags ps sq1 sq2\<rparr>"
proof -
  from wf have "length s = 4 \<or> length s = 5" by (rule not_malformed_length)
  then show ?thesis
  proof
    assume l: "length s = 4"
    then show ?thesis using s1 s2
      by (simp add: UCINotation_Decode_def Let_def UCI_promo_4 UCINotation_Decode_tags_eq)
  next
    assume l: "length s = 5"
    with wf have "UCI_promo s \<noteq> NoPieceType" by (simp add: not_malformed_promo)
    then show ?thesis using s1 s2 l
      by (simp add: UCINotation_Decode_def Let_def pieceTypeFromChar_promo
          UCINotation_Decode_tags_eq)
  qed
qed

lemma UCINotation_Decode_Inr_wellformed:
  "UCINotation_Decode pos s = Inr m \<Longrightarrow> \<not> UCI_malformed s"
  using UCINotation_Decode_malformed [of s pos] by auto

lemma UCINotation_Decode_wellformed:
  assumes wf: "\<not> UCI_malformed s"
  shows "\<exists>m. UCINotation_Decode pos s = Inr m
             \<and> strToSquareMap (take 2 s) = Some (S1 m)
             \<and> strToSquareMap (take 2 (drop 2 s)) = Some (S2 m)
             \<and> promo m = UCI_promo s"
proof -
  from wf obtain sq1 sq2 where sq: "strToSquareMap (take 2 s) = Some sq1"
    "strToSquareMap (take 2 (drop 2 s)) = Some sq2"
    using not_malformed_squares by blast
  show ?thesis
  proof (cases pos)
    case None
    then show ?thesis using UCINotation_Decode_nil [OF wf sq] sq by simp
  next
    case (Some ps)
    then show ?thesis using UCINotation_Decode_pos [OF wf sq] sq by simp
  qed
qed

lemma UCINotation_Decode_Inl_malformed:
  "UCINotation_Decode pos s = Inl e \<Longrightarrow> UCI_malformed s"
  using UCINotation_Decode_wellformed [of s pos] by auto

text \<open>
  Claim C4. UCI decoding fails exactly on the malformed texts: a length other than 4 and
  5, an unknown square text at characters 0-1 or 2-3, or a fifth character that is not
  one of q, r, b, n. On every other text it returns a move whose origin and destination
  are the squares the table gives for the two square texts and whose promotion piece is
  the one the fifth character stands for. This holds with and without a position.
\<close>

theorem UCINotation_Decode_syntax:
  "(UCI_malformed s \<longrightarrow> isl (UCINotation_Decode pos s))
   \<and> (\<not> UCI_malformed s \<longrightarrow>
        (\<exists>m. UCINotation_Decode pos s = Inr m
             \<and> strToSquareMap (take 2 s) = Some (S1 m)
             \<and> strToSquareMap (take 2 (drop 2 s)) = Some (S2 m)
             \<and> promo m = UCI_promo s))"
proof (intro conjI impI)
  assume "UCI_malformed s"
  then show "isl (UCINotation_Decode pos s)"
    by (simp add: UCINotation_Decode_malformed)
next
  assume "\<not> UCI_malformed s"
  then show "\<exists>m. UCINotation_Decode pos s = Inr m
             \<and> strToSquareMap (take 2 s) = Some (S1 m)
             \<and> strToSquareMap (take 2 (drop 2 s)) = Some (S2 m)
             \<and> promo m = UCI_promo s"
    by (rule UCINotation_Decode_wellformed)
qed

theorem UCINotation_Decode_syntax_witness:
  "UCI_malformed ''i9i1'' \<and> isl (UCINotation_Decode None ''i9i1'')
   \<and> UCI_malformed ''e2e'' \<and> isl (UCINotation_Decode (Some pos_castle) ''e2e'')
   \<and> UCI_malformed ''e7e8k'' \<and> isl (UCINotation_Decode None ''e7e8k'')
   \<and> \<not> UCI_malformed ''e7d8q''
   \<and> (\<exists>m. UCINotation_Decode None ''e7d8q'' = Inr m
          \<and> S1 m = Sq FileE Rank7 \<and> S2 m = Sq FileD Rank8 \<and> promo m = Queen)"
proof -
  have a: "UCI_malformed ''i9i1''" "UCI_malformed ''e2e''" "UCI_malformed ''e7e8k''"
    by (simp_all add: UCI_malformed_def)
  have b: "\<not> UCI_malformed ''e7d8q''"
    by (simp add: UCI_malformed_def)
  have c: "UCI_promo ''e7d8q'' = Queen"
    by (simp add: UCI_promo_def)
  show ?thesis
    using a b c UCINotation_Decode_syntax [of "''i9i1''" None]
      UCINotation_Decode_syntax [of "''e2e''" "Some pos_castle"]
      UCINotation_Decode_syntax [of "''e7e8k''" None]
      UCINotation_Decode_syntax [of "''e7d8q''" None]
    by auto
qed

text \<open>
  Claim C5, as amended. With a position, the move that UCI decoding returns carries
  exactly these tags: KingSideCastle when the origin holds a king going from e1 to g1 or
  from e8 to g8, QueenSideCastle when it holds a king going from e1 to c1 or from e8 to
  c8, EnPassant and Capture when it holds a pawn and the destination is the en-passant
  target, and Capture when the destination holds a piece whose color differs from the
  color on the origin square, an empty origin included. With the nil position the move
  carries no tag.
\<close>

theorem UCINotation_Decode_inferred_tags:
  "(UCINotation_Decode None s = Inr m \<longrightarrow> tags m = {})
   \<and> (UCINotation_Decode (Some ps) s = Inr m \<longrightarrow>
        tags m =
          (if Piece_Type (board ps (S1 m)) = King
              \<and> ((S1 m = E1 \<and> S2 m = G1) \<or> (S1 m = E8 \<and> S2 m = G8))
           then {KingSideCastle} else {})
          \<union> (if Piece_Type (board ps (S1 m)) = King
                \<and> ((S1 m = E1 \<and> S2 m = C1) \<or> (S1 m = E8 \<and> S2 m = C8))
             then {QueenSideCastle} else {})
          \<union> (if Piece_Type (board ps (S1 m)) = Pawn \<and> Some (S2 m) = enPassantSquare ps
             then {EnPassant, Capture} else {})
          \<union> (if Piece_Color (board ps (S2 m)) \<noteq> NoColor
                \<and> Piece_Color (board ps (S1 m)) \<noteq> Piece_Color (board ps (S2 m))
             then {Capture} else {}))"
proof (intro conjI impI)
  assume d: "UCINotation_Decode None s = Inr m"
  then have wf: "\<not> UCI_malformed s" by (rule UCINotation_Decode_Inr_wellformed)
  then obtain sq1 sq2 where sq: "strToSquareMap (take 2 s) = Some sq1"
    "strToSquareMap (take 2 (drop 2 s)) = Some sq2"
    using not_malformed_squares by blast
  from UCINotation_Decode_nil [OF wf sq] d show "tags m = {}" by auto
next
  assume d: "UCINotation_Decode (Some ps) s = Inr m"
  then have wf: "\<not> UCI_malformed s" by (rule UCINotation_Decode_Inr_wellformed)
  then obtain sq1 sq2 where sq: "strToSquareMap (take 2 s) = Some sq1"
    "strToSquareMap (take 2 (drop 2 s)) = Some sq2"
    using not_malformed_squares by blast
  from UCINotation_Decode_pos [OF wf sq, of ps] d
  have m: "m = \<lparr>S1 = sq1, S2 = sq2, promo = UCI_promo s, tags = UCI_tags ps sq1 sq2\<rparr>"
    by simp
  then have "tags m = UCI_tags ps (S1 m) (S2 m)" by simp
  then show "tags m =
          (if Piece_Type (board ps (S1 m)) = King
              \<and> ((S1 m = E1 \<and> S2 m = G1) \<or> (S1 m = E8 \<and> S2 m = G8))
           then {KingSideCastle} else {})
          \<union> (if Piece_Type (board ps (S1 m)) = King
                \<and> ((S1 m = E1 \<and> S2 m = C1) \<or> (S1 m = E8 \<and> S2 m = C8))
             then {QueenSideCastle} else {})
          \<union> (if Piece_Type (board ps (S1 m)) = Pawn \<and> Some (S2 m) = enPassantSquare ps
             then {EnPassant, Capture} else {})
          \<union> (if Piece_Color (board ps (S2 m)) \<noteq> NoColor
                \<and> Piece_Color (board ps (S1 m)) \<noteq> Piece_Color (board ps (S2 m))
             then {Capture} else {})"
    by (simp only: UCI_tags_def)
qed

theorem UCINotation_Decode_inferred_tags_witness:
  "UCINotation_Decode (Some pos_castle) ''e1g1'' = Inr (Mv E1 G1 {KingSideCastle})
   \<and> UCINotation_Decode (Some pos_castle) ''e1c1'' = Inr (Mv E1 C1 {QueenSideCastle})
   \<and> UCINotation_Decode None ''e1g1'' = Inr (Mv E1 G1 {})
   \<and> tags (Mv E1 G1 {KingSideCastle}) = {KingSideCastle}
   \<and> tags (Mv E1 G1 {}) = {}"
proof -
  have d1: "UCINotation_Decode (Some pos_castle) ''e1g1'' = Inr (Mv E1 G1 {KingSideCastle})"
    by (simp add: UCINotation_Decode_def Let_def UCINotation_Decode_tags_def Move_addTag_def
        pos_castle_def)
  have d2: "UCINotation_Decode (Some pos_castle) ''e1c1'' = Inr (Mv E1 C1 {QueenSideCastle})"
    by (simp add: UCINotation_Decode_def Let_def UCINotation_Decode_tags_def Move_addTag_def
        pos_castle_def)
  have d3: "UCINotation_Decode None ''e1g1'' = Inr (Mv E1 G1 {})"
    by (simp add: UCINotation_Decode_def Let_def)
  show ?thesis
    using d1 d2 d3
      UCINotation_Decode_inferred_tags [of "''e1g1''" "Mv E1 G1 {}" pos_castle]
      UCINotation_Decode_inferred_tags [of "''e1g1''" "Mv E1 G1 {KingSideCastle}" pos_castle]
    by simp
qed

text \<open>
  The claim as the specification words it fails where the origin square is empty and the
  destination is occupied: no piece moves, so the destination does not hold a piece of
  the color opposite to the mover's, and yet the move is tagged Capture.
\<close>

theorem UCINotation_Decode_capture_counterexample:
  "UCINotation_Decode (Some pos_castle) ''d5e8'' = Inr (Mv (Sq FileD Rank5) E8 {Capture})
   \<and> board pos_castle (Sq FileD Rank5) = NoPiece
   \<and> spec_UCI_tags pos_castle (Sq FileD Rank5) E8 = {}"
  by (simp add: UCINotation_Decode_def Let_def UCINotation_Decode_tags_def Move_addTag_def
      pos_castle_def spec_UCI_tags_def)

section \<open>Check and mate suffix, castles\<close>

lemma getCheckChar_no_Check [simp]:
  "getCheckChar pos (m\<lparr>tags := tags m - {Check}\<rparr>) = ''''"
  by (simp add: getCheckChar_def Move_HasTag_def)

lemma Move_HasTag_minus_Check [simp]:
  "t \<noteq> Check \<Longrightarrow> Move_HasTag (m\<lparr>tags := tags m - {Check}\<rparr>) t = Move_HasTag m t"
  by (simp add: Move_HasTag_def)

lemma formS1_loop_tags:
  "formS1_loop pos (m\<lparr>tags := ts\<rparr>) p moves st = formS1_loop pos m p moves st"
  by (induction pos m p moves st rule: formS1_loop.induct) simp_all

lemma formS1_tags [simp]: "formS1 pos (m\<lparr>tags := ts\<rparr>) = formS1 pos m"
  by (simp add: formS1_def formS1_loop_tags Let_def split: prod.splits)

text \<open>
  Claim C7. The suffix is empty when the move is not tagged Check; otherwise it is "#"
  when the position that applying the move gives has status Checkmate, and "+" in every
  other case. Both the standard and the long algebraic encoding end with this suffix:
  each is the encoding of the same move without its Check tag, followed by the suffix.
\<close>

theorem getCheckChar_suffix:
  "getCheckChar pos m =
     (if Check \<notin> tags m then ''''
      else if Update_Status pos m = Checkmate then ''#'' else ''+'')
   \<and> AlgebraicNotation_Encode pos m =
       AlgebraicNotation_Encode pos (m\<lparr>tags := tags m - {Check}\<rparr>) @ getCheckChar pos m
   \<and> LongAlgebraicNotation_Encode pos m =
       LongAlgebraicNotation_Encode pos (m\<lparr>tags := tags m - {Check}\<rparr>) @ getCheckChar pos m"
proof (intro conjI)
  show "getCheckChar pos m =
     (if Check \<notin> tags m then ''''
      else if Update_Status pos m = Checkmate then ''#'' else ''+'')"
    by (simp add: getCheckChar_def Move_HasTag_def)
  show "AlgebraicNotation_Encode pos m =
       AlgebraicNotation_Encode pos (m\<lparr>tags := tags m - {Check}\<rparr>) @ getCheckChar pos m"
    by (simp add: AlgebraicNotation_Encode_def Let_def)
  show "LongAlgebraicNotation_Encode pos m =
       LongAlgebraicNotation_Encode pos (m\<lparr>tags := tags m - {Check}\<rparr>) @ getCheckChar pos m"
    by (simp add: LongAlgebraicNotation_Encode_def Let_def)
qed

theorem getCheckChar_suffix_witness:
  "getCheckChar pos_castle (Mv A1 (Sq FileA Rank8) {Check}) = ''+''
   \<and> getCheckChar (pos_castle\<lparr>Update_Status := (\<lambda>_. Checkmate)\<rparr>)
        (Mv A1 (Sq FileA Rank8) {Check}) = ''#''
   \<and> getCheckChar (pos_castle\<lparr>Update_Status := (\<lambda>_. Checkmate)\<rparr>)
        (Mv A1 (Sq FileA Rank8) {}) = ''''"
  using getCheckChar_suffix [of pos_castle "Mv A1 (Sq FileA Rank8) {Check}"]
    getCheckChar_suffix [of "pos_castle\<lparr>Update_Status := (\<lambda>_. Checkmate)\<rparr>"
      "Mv A1 (Sq FileA Rank8) {Check}"]
    getCheckChar_suffix [of "pos_castle\<lparr>Update_Status := (\<lambda>_. Checkmate)\<rparr>"
      "Mv A1 (Sq FileA Rank8) {}"]
  by (simp add: pos_castle_def)

text \<open>
  Claim C6. A move carries at most one of the two castle tags. A move tagged
  KingSideCastle is encoded, in standard and in long algebraic notation, as "O-O"
  followed by the check or mate suffix and nothing else: no piece letter, no qualifier,
  no destination square. A move tagged QueenSideCastle is encoded as "O-O-O" followed by
  the suffix and nothing else.
\<close>

theorem castle_Encode:
  assumes "\<not> (Move_HasTag m KingSideCastle \<and> Move_HasTag m QueenSideCastle)"
  shows "(Move_HasTag m KingSideCastle \<longrightarrow>
      AlgebraicNotation_Encode pos m = ''O-O'' @ getCheckChar pos m
      \<and> LongAlgebraicNotation_Encode pos m = ''O-O'' @ getCheckChar pos m)
   \<and> (Move_HasTag m QueenSideCastle \<longrightarrow>
      AlgebraicNotation_Encode pos m = ''O-O-O'' @ getCheckChar pos m
      \<and> LongAlgebraicNotation_Encode pos m = ''O-O-O'' @ getCheckChar pos m)"
  using assms
  by (auto simp: AlgebraicNotation_Encode_def LongAlgebraicNotation_Encode_def Let_def)

theorem castle_Encode_witness:
  "\<not> (Move_HasTag (Mv E1 G1 {KingSideCastle}) KingSideCastle
       \<and> Move_HasTag (Mv E1 G1 {KingSideCastle}) QueenSideCastle)
   \<and> Move_HasTag (Mv E1 G1 {KingSideCastle}) KingSideCastle
   \<and> AlgebraicNotation_Encode pos_castle (Mv E1 G1 {KingSideCastle}) = ''O-O''
   \<and> LongAlgebraicNotation_Encode pos_castle (Mv E1 G1 {KingSideCastle}) = ''O-O''
   \<and> \<not> (Move_HasTag (Mv E1 C1 {QueenSideCastle, Check}) KingSideCastle
       \<and> Move_HasTag (Mv E1 C1 {QueenSideCastle, Check}) QueenSideCastle)
   \<and> Move_HasTag (Mv E1 C1 {QueenSideCastle, Check}) QueenSideCastle
   \<and> AlgebraicNotation_Encode pos_castle (Mv E1 C1 {QueenSideCastle, Check}) = ''O-O-O+''
   \<and> LongAlgebraicNotation_Encode pos_castle (Mv E1 C1 {QueenSideCastle, Check}) = ''O-O-O+''"
proof -
  have k: "Move_HasTag (Mv E1 G1 {KingSideCastle}) KingSideCastle"
    and nk: "\<not> (Move_HasTag (Mv E1 G1 {KingSideCastle}) KingSideCastle
       \<and> Move_HasTag (Mv E1 G1 {KingSideCastle}) QueenSideCastle)"
    and q: "Move_HasTag (Mv E1 C1 {QueenSideCastle, Check}) QueenSideCastle"
    and nq: "\<not> (Move_HasTag (Mv E1 C1 {QueenSideCastle, Check}) KingSideCastle
       \<and> Move_HasTag (Mv E1 C1 {QueenSideCastle, Check}) QueenSideCastle)"
    by (simp_all add: Move_HasTag_def)
  have c: "getCheckChar pos_castle (Mv E1 G1 {KingSideCastle}) = ''''"
    "getCheckChar pos_castle (Mv E1 C1 {QueenSideCastle, Check}) = ''+''"
    by (simp_all add: getCheckChar_def Move_HasTag_def pos_castle_def)
  from castle_Encode [OF nk, of pos_castle] k c(1)
  have 1: "AlgebraicNotation_Encode pos_castle (Mv E1 G1 {KingSideCastle}) = ''O-O''"
    "LongAlgebraicNotation_Encode pos_castle (Mv E1 G1 {KingSideCastle}) = ''O-O''"
    by simp_all
  from castle_Encode [OF nq, of pos_castle] q c(2)
  have 2: "AlgebraicNotation_Encode pos_castle (Mv E1 C1 {QueenSideCastle, Check}) = ''O-O-O+''"
    "LongAlgebraicNotation_Encode pos_castle (Mv E1 C1 {QueenSideCastle, Check}) = ''O-O-O+''"
    by simp_all
  from k nk q nq 1 2 show ?thesis by (intro conjI)
qed

section \<open>Decoding by generate and compare\<close>

lemma AlgebraicNotation_Decode_loop_find:
  "AlgebraicNotation_Decode_loop pos s moves
   = find (\<lambda>m. strip (AlgebraicNotation_Encode pos m) = s) moves"
  by (induction moves) (simp_all add: strip_def Let_def)

lemma LongAlgebraicNotation_Decode_loop_find:
  "LongAlgebraicNotation_Decode_loop pos s moves
   = find (\<lambda>m. strip (LongAlgebraicNotation_Encode pos m) = s) moves"
  by (induction moves) (simp_all add: strip_def Let_def)

lemma AlgebraicNotation_Decode_find:
  "AlgebraicNotation_Decode pos s =
     (case find (\<lambda>m. strip (AlgebraicNotation_Encode pos m) = strip s) (ValidMoves pos) of
        Some m \<Rightarrow> Inr m
      | None \<Rightarrow> Inl (''chess: could not decode algebraic notation '' @ strip s
                     @ '' for position '' @ Position_String pos))"
  by (simp add: AlgebraicNotation_Decode_def Let_def AlgebraicNotation_Decode_loop_find
      strip_def split: option.splits)

lemma LongAlgebraicNotation_Decode_find:
  "LongAlgebraicNotation_Decode pos s =
     (case find (\<lambda>m. strip (LongAlgebraicNotation_Encode pos m) = strip s) (ValidMoves pos) of
        Some m \<Rightarrow> Inr m
      | None \<Rightarrow> Inl (''chess: could not decode long algebraic notation '' @ strip s
                     @ '' for position '' @ Position_String pos))"
  by (simp add: LongAlgebraicNotation_Decode_def Let_def LongAlgebraicNotation_Decode_loop_find
      strip_def split: option.splits)

lemma find_first_index:
  "find P xs = Some x \<longleftrightarrow> (\<exists>i<length xs. xs ! i = x \<and> P x \<and> (\<forall>j<i. \<not> P (xs ! j)))"
  by (auto simp: find_Some_iff)

lemma find_None_all: "find P xs = None \<longleftrightarrow> (\<forall>x\<in>set xs. \<not> P x)"
  by (auto simp: find_None_iff)

lemma find_Some_member: "find P xs = Some x \<Longrightarrow> x \<in> set xs"
  by (auto simp: find_Some_iff)

text \<open>
  Claim C3. Standard algebraic decoding, and likewise long algebraic decoding, returns
  the first move in the order of the legal-move list whose encoding, stripped of the
  decorations, equals the stripped input. It returns an error exactly when no legal
  move matches. So a move it returns is always a member of the legal-move list.
\<close>

theorem Decode_first_legal_match:
  "(AlgebraicNotation_Decode pos s = Inr m \<longleftrightarrow>
      (\<exists>i<length (ValidMoves pos). ValidMoves pos ! i = m
          \<and> strip (AlgebraicNotation_Encode pos m) = strip s
          \<and> (\<forall>j<i. strip (AlgebraicNotation_Encode pos (ValidMoves pos ! j)) \<noteq> strip s)))
   \<and> (isl (AlgebraicNotation_Decode pos s) \<longleftrightarrow>
      (\<forall>x\<in>set (ValidMoves pos). strip (AlgebraicNotation_Encode pos x) \<noteq> strip s))
   \<and> (AlgebraicNotation_Decode pos s = Inr m \<longrightarrow> m \<in> set (ValidMoves pos))
   \<and> (LongAlgebraicNotation_Decode pos s = Inr m \<longleftrightarrow>
      (\<exists>i<length (ValidMoves pos). ValidMoves pos ! i = m
          \<and> strip (LongAlgebraicNotation_Encode pos m) = strip s
          \<and> (\<forall>j<i. strip (LongAlgebraicNotation_Encode pos (ValidMoves pos ! j)) \<noteq> strip s)))
   \<and> (isl (LongAlgebraicNotation_Decode pos s) \<longleftrightarrow>
      (\<forall>x\<in>set (ValidMoves pos). strip (LongAlgebraicNotation_Encode pos x) \<noteq> strip s))
   \<and> (LongAlgebraicNotation_Decode pos s = Inr m \<longrightarrow> m \<in> set (ValidMoves pos))"
proof -
  let ?P = "\<lambda>x. strip (AlgebraicNotation_Encode pos x) = strip s"
  let ?Q = "\<lambda>x. strip (LongAlgebraicNotation_Encode pos x) = strip s"
  have a: "AlgebraicNotation_Decode pos s = Inr m \<longleftrightarrow> find ?P (ValidMoves pos) = Some m"
    by (simp add: AlgebraicNotation_Decode_find split: option.splits)
  have b: "isl (AlgebraicNotation_Decode pos s) \<longleftrightarrow> find ?P (ValidMoves pos) = None"
    by (simp add: AlgebraicNotation_Decode_find split: option.splits)
  have c: "LongAlgebraicNotation_Decode pos s = Inr m \<longleftrightarrow> find ?Q (ValidMoves pos) = Some m"
    by (simp add: LongAlgebraicNotation_Decode_find split: option.splits)
  have d: "isl (LongAlgebraicNotation_Decode pos s) \<longleftrightarrow> find ?Q (ValidMoves pos) = None"
    by (simp add: LongAlgebraicNotation_Decode_find split: option.splits)
  show ?thesis
    unfolding a b c d
    by (intro conjI impI find_first_index find_None_all find_Some_member)
qed

theorem Decode_first_legal_match_witness:
  "AlgebraicNotation_Decode pos_castle ''Rb1?'' = Inr (Mv A1 (Sq FileB Rank1) {})
   \<and> Mv A1 (Sq FileB Rank1) {} \<in> set (ValidMoves pos_castle)
   \<and> LongAlgebraicNotation_Decode pos_castle ''Ra1b1!'' = Inr (Mv A1 (Sq FileB Rank1) {})
   \<and> isl (AlgebraicNotation_Decode pos_castle ''Rb9'')"
proof -
  have d: "AlgebraicNotation_Decode pos_castle ''Rb1?'' = Inr (Mv A1 (Sq FileB Rank1) {})"
    by (simp add: AlgebraicNotation_Decode_def removeSubstrings_def Let_def pos_castle_def
        AlgebraicNotation_Encode_def Move_HasTag_def getCheckChar_def formS1_def
        Square_String_def charForPromo_def)
  have e: "LongAlgebraicNotation_Decode pos_castle ''Ra1b1!''
           = Inr (Mv A1 (Sq FileB Rank1) {})"
    by (simp add: LongAlgebraicNotation_Decode_def removeSubstrings_def Let_def pos_castle_def
        LongAlgebraicNotation_Encode_def Move_HasTag_def getCheckChar_def
        Square_String_def charForPromo_def)
  have n: "\<forall>x\<in>set (ValidMoves pos_castle).
             strip (AlgebraicNotation_Encode pos_castle x) \<noteq> strip ''Rb9''"
    by (simp add: strip_def removeSubstrings_def Let_def pos_castle_def
        AlgebraicNotation_Encode_def Move_HasTag_def getCheckChar_def formS1_def
        Square_String_def charForPromo_def)
  from d Decode_first_legal_match [of pos_castle "''Rb1?''" "Mv A1 (Sq FileB Rank1) {}"]
  have mem: "Mv A1 (Sq FileB Rank1) {} \<in> set (ValidMoves pos_castle)"
    by blast
  from n Decode_first_legal_match [of pos_castle "''Rb9''" "Mv A1 (Sq FileB Rank1) {}"]
  have i: "isl (AlgebraicNotation_Decode pos_castle ''Rb9'')"
    by blast
  from d mem e i show ?thesis by (intro conjI)
qed

section \<open>Disambiguation\<close>

lemma Piece_eq_iff:
  "p = q \<longleftrightarrow> Piece_Type p = Piece_Type q \<and> Piece_Color p = Piece_Color q"
  by (cases p; cases q; simp)

text \<open>What the loop of \<^verbatim>\<open>formS1\<close> computes, as three existential statements.\<close>

lemma formS1_loop_flags:
  "formS1_loop pos m p moves (req, fileReq, rankReq) =
     (req \<or> (\<exists>mv\<in>set moves. S1 mv \<noteq> S1 m \<and> S2 mv = S2 m \<and> p = board pos (S1 mv)),
      fileReq \<or> (\<exists>mv\<in>set moves. S1 mv \<noteq> S1 m \<and> S2 mv = S2 m \<and> p = board pos (S1 mv)
                   \<and> Square_Rank (S1 mv) = Square_Rank (S1 m)),
      rankReq \<or> (\<exists>mv\<in>set moves. S1 mv \<noteq> S1 m \<and> S2 mv = S2 m \<and> p = board pos (S1 mv)
                   \<and> Square_File (S1 mv) = Square_File (S1 m)))"
proof (induction moves arbitrary: req fileReq rankReq)
  case Nil
  show ?case by simp
next
  case (Cons mv moves)
  show ?case
  proof (cases "S1 mv \<noteq> S1 m \<and> S2 mv = S2 m \<and> board pos (S1 mv) = p")
    case True
    then show ?thesis by (auto simp: Cons.IH)
  next
    case False
    then have "\<not> (S1 mv \<noteq> S1 m \<and> S2 mv = S2 m \<and> p = board pos (S1 mv))" by auto
    then show ?thesis by (auto simp: Cons.IH)
  qed
qed

lemma set_competitors:
  "set (competitors pos m) =
     {mv \<in> set (ValidMoves pos).
        S1 mv \<noteq> S1 m \<and> S2 mv = S2 m \<and> board pos (S1 m) = board pos (S1 mv)}"
  by (auto simp: competitors_def Piece_eq_iff [of "board pos (S1 m)"])

lemma formS1_loop_spec:
  "formS1_loop pos m (board pos (S1 m)) (ValidMoves pos) (False, False, False) =
     (competitors pos m \<noteq> [], spec_fileReq pos m, spec_rankReq pos m)"
proof -
  have n: "competitors pos m \<noteq> [] \<longleftrightarrow> (\<exists>mv. mv \<in> set (competitors pos m))"
    by (cases "competitors pos m") auto
  show ?thesis
    unfolding formS1_loop_flags n spec_fileReq_def spec_rankReq_def list_ex_iff
      set_competitors
    by auto
qed

lemma formS1_spec:
  assumes "Piece_Type (board pos (S1 m)) \<noteq> Pawn"
  shows "formS1 pos m =
     (if spec_fileReq pos m \<or> (competitors pos m \<noteq> [] \<and> \<not> spec_rankReq pos m)
      then File_String (Square_File (S1 m)) else [])
     @ (if spec_rankReq pos m then Rank_String (Square_Rank (S1 m)) else [])"
  using assms by (auto simp: formS1_def Let_def formS1_loop_spec)

lemma spec_flags_Nil:
  "competitors pos m = [] \<Longrightarrow> \<not> spec_fileReq pos m \<and> \<not> spec_rankReq pos m"
  by (simp add: spec_fileReq_def spec_rankReq_def)

text \<open>
  Claim C2. For a move of a piece other than a pawn, a competing legal move (same piece
  type and color, same destination, different origin) sets rankReq when its origin file
  is the move's origin file and fileReq when its origin rank is the move's origin rank.
  The qualifier holds the origin file exactly when fileReq is set or there is a
  competitor and rankReq is not set, and after it the origin rank exactly when rankReq
  is set. With no competitor the qualifier is empty. When there are competitors and all
  of them stand on other files, the qualifier is the origin file alone.
\<close>

theorem formS1_qualifier:
  assumes "Piece_Type (board pos (S1 m)) \<noteq> Pawn"
  shows "formS1 pos m =
     (if spec_fileReq pos m \<or> (competitors pos m \<noteq> [] \<and> \<not> spec_rankReq pos m)
      then File_String (Square_File (S1 m)) else [])
     @ (if spec_rankReq pos m then Rank_String (Square_Rank (S1 m)) else [])
   \<and> (competitors pos m = [] \<longrightarrow> formS1 pos m = [])
   \<and> (competitors pos m \<noteq> []
         \<and> (\<forall>mv\<in>set (competitors pos m). Square_File (S1 mv) \<noteq> Square_File (S1 m))
       \<longrightarrow> formS1 pos m = File_String (Square_File (S1 m)))"
proof (intro conjI impI)
  show "formS1 pos m =
     (if spec_fileReq pos m \<or> (competitors pos m \<noteq> [] \<and> \<not> spec_rankReq pos m)
      then File_String (Square_File (S1 m)) else [])
     @ (if spec_rankReq pos m then Rank_String (Square_Rank (S1 m)) else [])"
    using assms by (rule formS1_spec)
next
  assume "competitors pos m = []"
  then show "formS1 pos m = []"
    using spec_flags_Nil [of pos m] by (simp add: formS1_spec [OF assms])
next
  assume h: "competitors pos m \<noteq> []
         \<and> (\<forall>mv\<in>set (competitors pos m). Square_File (S1 mv) \<noteq> Square_File (S1 m))"
  then have "\<not> spec_rankReq pos m" by (simp add: spec_rankReq_def list_ex_iff)
  with h show "formS1 pos m = File_String (Square_File (S1 m))"
    by (simp add: formS1_spec [OF assms])
qed

theorem formS1_qualifier_witness:
  "Piece_Type (board pos_rooks (S1 (Mv A1 (Sq FileB Rank1) {}))) \<noteq> Pawn
   \<and> competitors pos_rooks (Mv A1 (Sq FileB Rank1) {})
       = [Mv (Sq FileH Rank1) (Sq FileB Rank1) {}]
   \<and> formS1 pos_rooks (Mv A1 (Sq FileB Rank1) {}) = ''a''
   \<and> competitors pos_rooks (Mv A1 (Sq FileA Rank2) {}) = []
   \<and> formS1 pos_rooks (Mv A1 (Sq FileA Rank2) {}) = []"
proof -
  have p: "Piece_Type (board pos_rooks (S1 (Mv A1 (Sq FileB Rank1) {}))) \<noteq> Pawn"
    "Piece_Type (board pos_rooks (S1 (Mv A1 (Sq FileA Rank2) {}))) \<noteq> Pawn"
    by (simp_all add: pos_rooks_def)
  have c: "competitors pos_rooks (Mv A1 (Sq FileB Rank1) {})
       = [Mv (Sq FileH Rank1) (Sq FileB Rank1) {}]"
    by (simp add: competitors_def pos_rooks_def)
  have d: "competitors pos_rooks (Mv A1 (Sq FileA Rank2) {}) = []"
    by (simp add: competitors_def pos_rooks_def)
  show ?thesis
    using p c d formS1_qualifier [OF p(1)] formS1_qualifier [OF p(2)]
    by (simp add: spec_rankReq_def spec_fileReq_def)
qed

section \<open>Decoding errors\<close>

lemma contains_iff: "contains s sub \<longleftrightarrow> (\<exists>ps ss. s = ps @ sub @ ss)"
proof (induction s)
  case Nil
  show ?case by simp
next
  case (Cons c cs)
  show ?case
  proof
    assume "contains (c # cs) sub"
    then consider "take (length sub) (c # cs) = sub" | "contains cs sub" by auto
    then show "\<exists>ps ss. c # cs = ps @ sub @ ss"
    proof cases
      case 1
      then have "c # cs = [] @ sub @ drop (length sub) (c # cs)"
        by (metis append_Nil append_take_drop_id)
      then show ?thesis by blast
    next
      case 2
      then obtain ps ss where "cs = ps @ sub @ ss" using Cons.IH by blast
      then have "c # cs = (c # ps) @ sub @ ss" by simp
      then show ?thesis by blast
    qed
  next
    assume "\<exists>ps ss. c # cs = ps @ sub @ ss"
    then obtain ps ss where e: "c # cs = ps @ sub @ ss" by blast
    show "contains (c # cs) sub"
    proof (cases ps)
      case Nil
      with e have "take (length sub) (c # cs) = sub" by simp
      then show ?thesis by simp
    next
      case (Cons a ps')
      with e have "cs = ps' @ sub @ ss" by simp
      then have "contains cs sub" using Cons.IH by blast
      then show ?thesis by simp
    qed
  qed
qed

lemma contains_middle: "contains (ps @ sub @ ss) sub"
  unfolding contains_iff by blast

lemma contains_end: "contains (ps @ sub) sub"
  using contains_middle [of ps sub "[]"] by simp

text \<open>
  Claim C9, as amended. Every decoding error carries the input string, as it was given
  for UCI and stripped of the decorations for standard and long algebraic notation, and
  the text of the position (for the nil position of UCI, the text that formatting prints
  for nil). The error of standard algebraic decoding names algebraic notation and the
  error of long algebraic decoding names long algebraic notation.
\<close>

theorem Decode_error_carries:
  "(UCINotation_Decode upos s = Inl e \<longrightarrow> contains e s \<and> contains e (fmt_Position upos))
   \<and> (AlgebraicNotation_Decode pos s = Inl e \<longrightarrow>
        contains e (strip s) \<and> contains e ''algebraic notation''
        \<and> contains e (Position_String pos))
   \<and> (LongAlgebraicNotation_Decode pos s = Inl e \<longrightarrow>
        contains e (strip s) \<and> contains e ''long algebraic notation''
        \<and> contains e (Position_String pos))"
proof (intro conjI impI)
  assume u: "UCINotation_Decode upos s = Inl e"
  then have "UCI_malformed s" by (rule UCINotation_Decode_Inl_malformed)
  then have e: "e = ''chess: failed to decode long algebraic notation text '' @ [CHR 0x22] @ s
              @ [CHR 0x22] @ '' for position '' @ fmt_Position upos"
    using u UCINotation_Decode_malformed [of s upos] by simp
  have "e = (''chess: failed to decode long algebraic notation text '' @ [CHR 0x22]) @ s
              @ ([CHR 0x22] @ '' for position '' @ fmt_Position upos)"
    unfolding e by simp
  then show "contains e s" by (simp only: contains_middle)
  have "e = (''chess: failed to decode long algebraic notation text '' @ [CHR 0x22] @ s
              @ [CHR 0x22] @ '' for position '') @ fmt_Position upos"
    unfolding e by simp
  then show "contains e (fmt_Position upos)" by (simp only: contains_end)
next
  assume a: "AlgebraicNotation_Decode pos s = Inl e"
  then have e: "e = ''chess: could not decode algebraic notation '' @ strip s
                     @ '' for position '' @ Position_String pos"
    by (simp add: AlgebraicNotation_Decode_find split: option.splits)
  show "contains e (strip s)" unfolding e by (rule contains_middle)
  have "e = ''chess: could not decode '' @ ''algebraic notation'' @ ('' '' @ strip s
                     @ '' for position '' @ Position_String pos)"
    unfolding e by simp
  then show "contains e ''algebraic notation''" by (simp only: contains_middle)
  have "e = (''chess: could not decode algebraic notation '' @ strip s
                     @ '' for position '') @ Position_String pos"
    unfolding e by simp
  then show "contains e (Position_String pos)" by (simp only: contains_end)
next
  assume a: "LongAlgebraicNotation_Decode pos s = Inl e"
  then have e: "e = ''chess: could not decode long algebraic notation '' @ strip s
                     @ '' for position '' @ Position_String pos"
    by (simp add: LongAlgebraicNotation_Decode_find split: option.splits)
  show "contains e (strip s)" unfolding e by (rule contains_middle)
  have "e = ''chess: could not decode '' @ ''long algebraic notation'' @ ('' '' @ strip s
                     @ '' for position '' @ Position_String pos)"
    unfolding e by simp
  then show "contains e ''long algebraic notation''" by (simp only: contains_middle)
  have "e = (''chess: could not decode long algebraic notation '' @ strip s
                     @ '' for position '') @ Position_String pos"
    unfolding e by simp
  then show "contains e (Position_String pos)" by (simp only: contains_end)
qed

theorem Decode_error_carries_witness:
  "UCINotation_Decode None ''e2'' =
     Inl (''chess: failed to decode long algebraic notation text '' @ [CHR 0x22] @ ''e2''
          @ [CHR 0x22] @ '' for position <nil>'')
   \<and> contains (''chess: failed to decode long algebraic notation text '' @ [CHR 0x22] @ ''e2''
          @ [CHR 0x22] @ '' for position <nil>'') ''e2''
   \<and> AlgebraicNotation_Decode pos_castle ''Rb9!'' =
       Inl ''chess: could not decode algebraic notation Rb9 for position 4k3/8/8/8/8/8/8/R3K2R w KQ - 0 1''
   \<and> contains
       ''chess: could not decode algebraic notation Rb9 for position 4k3/8/8/8/8/8/8/R3K2R w KQ - 0 1''
       (Position_String pos_castle)"
proof -
  let ?e1 = "''chess: failed to decode long algebraic notation text '' @ [CHR 0x22] @ ''e2''
          @ [CHR 0x22] @ '' for position <nil>''"
  let ?e2 = "''chess: could not decode algebraic notation Rb9 for position 4k3/8/8/8/8/8/8/R3K2R w KQ - 0 1''"
  have u: "UCINotation_Decode None ''e2'' = Inl ?e1"
    by (simp add: UCINotation_Decode_def Let_def fmt_Position_def)
  have a: "AlgebraicNotation_Decode pos_castle ''Rb9!'' = Inl ?e2"
    by (simp add: AlgebraicNotation_Decode_def removeSubstrings_def Let_def pos_castle_def
        AlgebraicNotation_Encode_def Move_HasTag_def getCheckChar_def formS1_def
        Square_String_def charForPromo_def)
  from u Decode_error_carries [where upos = None and s = "''e2''" and e = ?e1]
  have c1: "contains ?e1 ''e2''"
    by blast
  from a Decode_error_carries [where pos = pos_castle and s = "''Rb9!''" and e = ?e2]
  have c2: "contains ?e2 (Position_String pos_castle)"
    by blast
  from u c1 a c2 show ?thesis by (intro conjI)
qed

text \<open>
  The error of standard algebraic decoding does not carry the raw input where the input
  is decorated: the input "Rb9+" is reported as "Rb9".
\<close>

theorem Decode_error_raw_input_counterexample:
  "AlgebraicNotation_Decode pos_castle ''Rb9+'' =
     Inl ''chess: could not decode algebraic notation Rb9 for position 4k3/8/8/8/8/8/8/R3K2R w KQ - 0 1''
   \<and> \<not> contains
       ''chess: could not decode algebraic notation Rb9 for position 4k3/8/8/8/8/8/8/R3K2R w KQ - 0 1''
       ''Rb9+''"
proof
  show "AlgebraicNotation_Decode pos_castle ''Rb9+'' =
     Inl ''chess: could not decode algebraic notation Rb9 for position 4k3/8/8/8/8/8/8/R3K2R w KQ - 0 1''"
    by (simp add: AlgebraicNotation_Decode_def removeSubstrings_def Let_def pos_castle_def
        AlgebraicNotation_Encode_def Move_HasTag_def getCheckChar_def formS1_def
        Square_String_def charForPromo_def)
  show "\<not> contains
       ''chess: could not decode algebraic notation Rb9 for position 4k3/8/8/8/8/8/8/R3K2R w KQ - 0 1''
       ''Rb9+''"
    by simp
qed

section \<open>Decoration tolerance\<close>

lemma Replace_single: "Replace s [c] = filter (\<lambda>x. x \<noteq> c) s"
  by (induction s) simp_all

lemma strip_filter: "strip s = Replace (filter unmarked s) ''e.p.''"
proof -
  have "filter (\<lambda>x. x \<noteq> CHR ''#'') (filter (\<lambda>x. x \<noteq> CHR ''+'')
          (filter (\<lambda>x. x \<noteq> CHR ''!'') (filter (\<lambda>x. x \<noteq> CHR ''?'') s)))
        = filter unmarked s"
    by (simp add: conj_ac)
  then show ?thesis
    by (simp add: strip_def removeSubstrings_def Replace_single)
qed

lemma Replace_Cons_no:
  "take (length old) (c # cs) \<noteq> old \<Longrightarrow> Replace (c # cs) old = c # Replace cs old"
  by simp

lemma take_ep_dot:
  assumes "take (length ''e.p.'') u = ''e.p.''"
  shows "CHR ''.'' \<in> set u"
proof -
  have "set (take (length ''e.p.'') u) \<subseteq> set u" by (rule set_take_subset)
  then have "set ''e.p.'' \<subseteq> set u" by (simp only: assms)
  then show ?thesis by simp
qed

lemma Replace_ep_noop: "CHR ''.'' \<notin> set t \<Longrightarrow> Replace t ''e.p.'' = t"
proof (induction t)
  case Nil
  show ?case by simp
next
  case (Cons a t)
  have ne: "take (length ''e.p.'') (a # t) \<noteq> ''e.p.''"
    using take_ep_dot [of "a # t"] Cons.prems by blast
  have "Replace t ''e.p.'' = t" using Cons by simp
  then show ?case by (simp only: Replace_Cons_no [OF ne])
qed

lemma Replace_ep_here: "Replace (''e.p.'' @ t2) ''e.p.'' = Replace t2 ''e.p.''"
  by simp

lemma Replace_ep_insert:
  "CHR ''.'' \<notin> set t1 \<Longrightarrow> CHR ''.'' \<notin> set t2 \<Longrightarrow> Replace (t1 @ ''e.p.'' @ t2) ''e.p.'' = t1 @ t2"
proof (induction t1)
  case Nil
  have "Replace t2 ''e.p.'' = t2" using Nil.prems(2) by (rule Replace_ep_noop)
  then show ?case by (simp only: append_Nil Replace_ep_here)
next
  case (Cons a t1)
  have ne: "take (length ''e.p.'') (a # (t1 @ ''e.p.'' @ t2)) \<noteq> ''e.p.''"
  proof (cases t1)
    case Nil
    then show ?thesis by simp
  next
    case (Cons b t1')
    with Cons.prems have "b \<noteq> CHR ''.''" by auto
    then show ?thesis using Cons by simp
  qed
  have tl: "Replace (t1 @ ''e.p.'' @ t2) ''e.p.'' = t1 @ t2" using Cons by simp
  have hd: "Replace (a # (t1 @ ''e.p.'' @ t2)) ''e.p.'' = a # Replace (t1 @ ''e.p.'' @ t2) ''e.p.''"
    using ne by (rule Replace_Cons_no)
  show ?case by (metis append_Cons hd tl)
qed

lemma strip_no_dot: "CHR ''.'' \<notin> set t \<Longrightarrow> strip t = filter unmarked t"
  by (simp add: strip_filter Replace_ep_noop)

lemma filter_insert_mark:
  "d \<in> {''?'', ''!'', ''+'', ''#''} \<Longrightarrow>
   filter unmarked (take i s @ d @ drop i s) = filter unmarked s"
proof -
  assume "d \<in> {''?'', ''!'', ''+'', ''#''}"
  then have "filter unmarked d = []" by auto
  then have "filter unmarked (take i s @ d @ drop i s)
             = filter unmarked (take i s @ drop i s)"
    by (simp only: filter_append append_Nil)
  then show ?thesis by (simp only: append_take_drop_id)
qed

lemma filter_insert_ep:
  "filter unmarked (take i s @ ''e.p.'' @ drop i s)
   = filter unmarked (take i s) @ ''e.p.'' @ filter unmarked (drop i s)"
  by simp

text \<open>
  What is left of a decorated text when the four one-character marks are taken out: the
  undecorated text without its marks, with "e.p." somewhere in it if it was inserted.
\<close>

lemma decorated_filter:
  assumes "decorated ds t s"
  shows "set ds \<subseteq> set decorations \<Longrightarrow> count_list ds ''e.p.'' \<le> 1 \<Longrightarrow>
     (if ''e.p.'' \<in> set ds
      then \<exists>u1 u2. filter unmarked s = u1 @ ''e.p.'' @ u2 \<and> u1 @ u2 = filter unmarked t
      else filter unmarked s = filter unmarked t)"
  using assms
proof (induction rule: decorated.induct)
  case (decorated_Nil t)
  show ?case by simp
next
  case (decorated_Cons ds t s d i)
  from decorated_Cons.prems have sub: "set ds \<subseteq> set decorations"
    and dis: "count_list ds ''e.p.'' \<le> 1"
    and dn: "d = ''e.p.'' \<longrightarrow> ''e.p.'' \<notin> set ds" and dd: "d \<in> set decorations"
    by (simp_all add: count_list_0_iff split: if_splits)
  note IH = decorated_Cons.IH [OF sub dis]
  show ?case
  proof (cases "d = ''e.p.''")
    case True
    with dn have "''e.p.'' \<notin> set ds" by simp
    with IH have f: "filter unmarked s = filter unmarked t" by simp
    have "filter unmarked (take i s) @ filter unmarked (drop i s) = filter unmarked s"
      by (simp flip: filter_append)
    with f have "filter unmarked (take i s @ ''e.p.'' @ drop i s)
           = filter unmarked (take i s) @ ''e.p.'' @ filter unmarked (drop i s)
        \<and> filter unmarked (take i s) @ filter unmarked (drop i s) = filter unmarked t"
      by (simp only: filter_insert_ep)
    then show ?thesis unfolding True by (simp only: list.set_intros if_True) blast
  next
    case False
    with dd have mark: "d \<in> {''?'', ''!'', ''+'', ''#''}" by auto
    have m: "''e.p.'' \<in> set (d # ds) \<longleftrightarrow> ''e.p.'' \<in> set ds" using False by auto
    show ?thesis
      unfolding m filter_insert_mark [OF mark] by (rule IH)
  qed
qed

lemma decorated_strip:
  assumes d: "decorated ds t s" and sub: "set ds \<subseteq> set decorations"
    and dis: "count_list ds ''e.p.'' \<le> 1" and dot: "CHR ''.'' \<notin> set t"
  shows "strip s = strip t"
proof (cases "''e.p.'' \<in> set ds")
  case True
  with decorated_filter [OF d sub dis]
  obtain u1 u2 where u: "filter unmarked s = u1 @ ''e.p.'' @ u2"
    "u1 @ u2 = filter unmarked t" by auto
  have "set (u1 @ u2) \<subseteq> set t" unfolding u(2) by auto
  with dot have "CHR ''.'' \<notin> set u1" "CHR ''.'' \<notin> set u2" by auto
  then have "Replace (u1 @ ''e.p.'' @ u2) ''e.p.'' = u1 @ u2" by (rule Replace_ep_insert)
  then show ?thesis
    by (simp add: strip_filter [of s] u strip_no_dot [OF dot])
next
  case False
  with decorated_filter [OF d sub dis]
  have f: "filter unmarked s = filter unmarked t" by simp
  show ?thesis by (simp add: strip_filter f)
qed

lemma no_dot_tables:
  "CHR ''.'' \<notin> set (File_String f)" "CHR ''.'' \<notin> set (Rank_String r)"
  "CHR ''.'' \<notin> set (charFromPieceType pt)" "CHR ''.'' \<notin> set (charForPromo pt)"
  "CHR ''.'' \<notin> set (Square_String sq)" "CHR ''.'' \<notin> set (getCheckChar pos m)"
proof -
  show f: "CHR ''.'' \<notin> set (File_String f)" by (cases f) simp_all
  show r: "CHR ''.'' \<notin> set (Rank_String r)" by (cases r) simp_all
  show "CHR ''.'' \<notin> set (charFromPieceType pt)" by (cases pt) simp_all
  show "CHR ''.'' \<notin> set (charForPromo pt)" by (cases pt) (simp_all add: charForPromo_def)
  have "\<And>g k. CHR ''.'' \<notin> set (File_String g) \<and> CHR ''.'' \<notin> set (Rank_String k)"
  proof
    fix g k
    show "CHR ''.'' \<notin> set (File_String g)" by (cases g) simp_all
    show "CHR ''.'' \<notin> set (Rank_String k)" by (cases k) simp_all
  qed
  then show "CHR ''.'' \<notin> set (Square_String sq)" by (simp add: Square_String_def)
  show "CHR ''.'' \<notin> set (getCheckChar pos m)" by (simp add: getCheckChar_def)
qed

lemma no_dot_formS1: "CHR ''.'' \<notin> set (formS1 pos m)"
  by (simp add: formS1_def Let_def no_dot_tables split: prod.splits)

lemma no_dot_AlgebraicNotation_Encode: "CHR ''.'' \<notin> set (AlgebraicNotation_Encode pos m)"
  by (simp add: AlgebraicNotation_Encode_def Let_def no_dot_tables no_dot_formS1)

lemma no_dot_LongAlgebraicNotation_Encode:
  "CHR ''.'' \<notin> set (LongAlgebraicNotation_Encode pos m)"
  by (simp add: LongAlgebraicNotation_Encode_def Let_def no_dot_tables)

lemma no_dot_strip: "CHR ''.'' \<notin> set t \<Longrightarrow> CHR ''.'' \<notin> set (strip t)"
  by (simp add: strip_no_dot)

lemma find_same_key:
  assumes "m \<in> set xs"
  shows "\<exists>x. find (\<lambda>x. f x = f m) xs = Some x \<and> x \<in> set xs \<and> f x = f m"
proof -
  from assms have "find (\<lambda>x. f x = f m) xs \<noteq> None"
    by (auto simp: find_None_iff)
  then obtain x where x: "find (\<lambda>x. f x = f m) xs = Some x" by auto
  then have "x \<in> set xs \<and> f x = f m" by (auto simp: find_Some_iff)
  with x show ?thesis by blast
qed

lemma strip_idem_Encode:
  "strip (strip (AlgebraicNotation_Encode pos m)) = strip (AlgebraicNotation_Encode pos m)"
  "strip (strip (LongAlgebraicNotation_Encode pos m))
   = strip (LongAlgebraicNotation_Encode pos m)"
  by (simp_all add: strip_no_dot no_dot_AlgebraicNotation_Encode
      no_dot_LongAlgebraicNotation_Encode)

lemma AlgebraicNotation_Decode_same_text:
  assumes "m \<in> set (ValidMoves pos)"
    and "strip u = strip (AlgebraicNotation_Encode pos m)"
  shows "\<exists>m'. AlgebraicNotation_Decode pos u = Inr m'
      \<and> find (\<lambda>x. strip (AlgebraicNotation_Encode pos x)
                    = strip (AlgebraicNotation_Encode pos m)) (ValidMoves pos) = Some m'
      \<and> m' \<in> set (ValidMoves pos)
      \<and> strip (AlgebraicNotation_Encode pos m') = strip (AlgebraicNotation_Encode pos m)"
proof -
  obtain x where x: "find (\<lambda>x. strip (AlgebraicNotation_Encode pos x)
        = strip (AlgebraicNotation_Encode pos m)) (ValidMoves pos) = Some x"
    "x \<in> set (ValidMoves pos)"
    "strip (AlgebraicNotation_Encode pos x) = strip (AlgebraicNotation_Encode pos m)"
    using find_same_key [OF assms(1), of "\<lambda>x. strip (AlgebraicNotation_Encode pos x)"]
    by blast
  have "AlgebraicNotation_Decode pos u = Inr x"
    by (simp add: AlgebraicNotation_Decode_find assms(2) x(1))
  with x show ?thesis by blast
qed

lemma LongAlgebraicNotation_Decode_same_text:
  assumes "m \<in> set (ValidMoves pos)"
    and "strip u = strip (LongAlgebraicNotation_Encode pos m)"
  shows "\<exists>m'. LongAlgebraicNotation_Decode pos u = Inr m'
      \<and> find (\<lambda>x. strip (LongAlgebraicNotation_Encode pos x)
                    = strip (LongAlgebraicNotation_Encode pos m)) (ValidMoves pos) = Some m'
      \<and> m' \<in> set (ValidMoves pos)
      \<and> strip (LongAlgebraicNotation_Encode pos m')
          = strip (LongAlgebraicNotation_Encode pos m)"
proof -
  obtain x where x: "find (\<lambda>x. strip (LongAlgebraicNotation_Encode pos x)
        = strip (LongAlgebraicNotation_Encode pos m)) (ValidMoves pos) = Some x"
    "x \<in> set (ValidMoves pos)"
    "strip (LongAlgebraicNotation_Encode pos x) = strip (LongAlgebraicNotation_Encode pos m)"
    using find_same_key [OF assms(1), of "\<lambda>x. strip (LongAlgebraicNotation_Encode pos x)"]
    by blast
  have "LongAlgebraicNotation_Decode pos u = Inr x"
    by (simp add: LongAlgebraicNotation_Decode_find assms(2) x(1))
  with x show ?thesis by blast
qed

text \<open>
  Claim C8. Take the encoding of a legal move in standard or in long algebraic notation,
  as it is or stripped of its check or mate suffix, and insert into it any of the
  decorations "?", "!", "+", "#" and "e.p.", each at any place, the four marks any number
  of times and "e.p." at most once. Decoding the decorated text and decoding the
  undecorated text both succeed and return the same legal move, whose stripped encoding
  is that of the move encoded.
\<close>

theorem Decode_decoration_tolerance:
  "(m \<in> set (ValidMoves pos) \<and> decorated ds t s \<and> set ds \<subseteq> set decorations
      \<and> count_list ds ''e.p.'' \<le> 1
      \<and> (t = AlgebraicNotation_Encode pos m \<or> t = strip (AlgebraicNotation_Encode pos m))
    \<longrightarrow> (\<exists>m'. AlgebraicNotation_Decode pos s = Inr m'
            \<and> AlgebraicNotation_Decode pos t = Inr m'
            \<and> m' \<in> set (ValidMoves pos)
            \<and> strip (AlgebraicNotation_Encode pos m') = strip (AlgebraicNotation_Encode pos m)))
   \<and> (m \<in> set (ValidMoves pos) \<and> decorated ds t s \<and> set ds \<subseteq> set decorations
      \<and> count_list ds ''e.p.'' \<le> 1
      \<and> (t = LongAlgebraicNotation_Encode pos m
          \<or> t = strip (LongAlgebraicNotation_Encode pos m))
    \<longrightarrow> (\<exists>m'. LongAlgebraicNotation_Decode pos s = Inr m'
            \<and> LongAlgebraicNotation_Decode pos t = Inr m'
            \<and> m' \<in> set (ValidMoves pos)
            \<and> strip (LongAlgebraicNotation_Encode pos m')
                = strip (LongAlgebraicNotation_Encode pos m)))"
proof (intro conjI impI)
  assume h: "m \<in> set (ValidMoves pos) \<and> decorated ds t s \<and> set ds \<subseteq> set decorations
      \<and> count_list ds ''e.p.'' \<le> 1
      \<and> (t = AlgebraicNotation_Encode pos m \<or> t = strip (AlgebraicNotation_Encode pos m))"
  then have m: "m \<in> set (ValidMoves pos)" by simp
  from h have dot: "CHR ''.'' \<notin> set t"
    using no_dot_AlgebraicNotation_Encode [of pos m] no_dot_strip by auto
  with h have st: "strip s = strip t" by (intro decorated_strip [of ds t s]) simp_all
  from h have tt: "strip t = strip (AlgebraicNotation_Encode pos m)"
    using strip_idem_Encode(1) [of pos m] by auto
  from AlgebraicNotation_Decode_same_text [OF m tt]
    AlgebraicNotation_Decode_same_text [OF m trans [OF st tt]]
  show "\<exists>m'. AlgebraicNotation_Decode pos s = Inr m'
            \<and> AlgebraicNotation_Decode pos t = Inr m'
            \<and> m' \<in> set (ValidMoves pos)
            \<and> strip (AlgebraicNotation_Encode pos m') = strip (AlgebraicNotation_Encode pos m)"
    by auto
next
  assume h: "m \<in> set (ValidMoves pos) \<and> decorated ds t s \<and> set ds \<subseteq> set decorations
      \<and> count_list ds ''e.p.'' \<le> 1
      \<and> (t = LongAlgebraicNotation_Encode pos m
          \<or> t = strip (LongAlgebraicNotation_Encode pos m))"
  then have m: "m \<in> set (ValidMoves pos)" by simp
  from h have dot: "CHR ''.'' \<notin> set t"
    using no_dot_LongAlgebraicNotation_Encode [of pos m] no_dot_strip by auto
  with h have st: "strip s = strip t" by (intro decorated_strip [of ds t s]) simp_all
  from h have tt: "strip t = strip (LongAlgebraicNotation_Encode pos m)"
    using strip_idem_Encode(2) [of pos m] by auto
  from LongAlgebraicNotation_Decode_same_text [OF m tt]
    LongAlgebraicNotation_Decode_same_text [OF m trans [OF st tt]]
  show "\<exists>m'. LongAlgebraicNotation_Decode pos s = Inr m'
            \<and> LongAlgebraicNotation_Decode pos t = Inr m'
            \<and> m' \<in> set (ValidMoves pos)
            \<and> strip (LongAlgebraicNotation_Encode pos m')
                = strip (LongAlgebraicNotation_Encode pos m)"
    by auto
qed

theorem Decode_decoration_tolerance_witness:
  "Mv A1 (Sq FileB Rank1) {} \<in> set (ValidMoves pos_castle)
   \<and> decorated [''!'', ''e.p.'', ''+'', ''!''] ''Rb1'' ''R!b+1e.p.!''
   \<and> ''Rb1'' = AlgebraicNotation_Encode pos_castle (Mv A1 (Sq FileB Rank1) {})
   \<and> AlgebraicNotation_Decode pos_castle ''Rb1'' = Inr (Mv A1 (Sq FileB Rank1) {})
   \<and> AlgebraicNotation_Decode pos_castle ''R!b+1e.p.!'' = Inr (Mv A1 (Sq FileB Rank1) {})
   \<and> decorated [''?'', ''#''] ''Ra1b1'' ''Ra1#b1?''
   \<and> ''Ra1b1'' = LongAlgebraicNotation_Encode pos_castle (Mv A1 (Sq FileB Rank1) {})
   \<and> LongAlgebraicNotation_Decode pos_castle ''Ra1b1'' = Inr (Mv A1 (Sq FileB Rank1) {})
   \<and> LongAlgebraicNotation_Decode pos_castle ''Ra1#b1?'' = Inr (Mv A1 (Sq FileB Rank1) {})"
proof -
  let ?m = "Mv A1 (Sq FileB Rank1) {}"
  have mem: "?m \<in> set (ValidMoves pos_castle)"
    by (simp add: pos_castle_def)
  have d1: "decorated [''!'', ''e.p.'', ''+'', ''!''] ''Rb1'' ''R!b+1e.p.!''"
    using decorated_Cons [OF decorated_Cons [OF decorated_Cons [OF decorated_Cons
          [OF decorated_Nil [of "''Rb1''"], of "''!''" 3], of "''+''" 2], of "''e.p.''" 4],
          of "''!''" 1]
    by simp
  have d2: "decorated [''?'', ''#''] ''Ra1b1'' ''Ra1#b1?''"
    using decorated_Cons [OF decorated_Cons [OF decorated_Nil [of "''Ra1b1''"],
          of "''#''" 3], of "''?''" 6]
    by simp
  have e1: "''Rb1'' = AlgebraicNotation_Encode pos_castle ?m"
    by (simp add: AlgebraicNotation_Encode_def Let_def pos_castle_def Move_HasTag_def
        getCheckChar_def formS1_def Square_String_def charForPromo_def)
  have e2: "''Ra1b1'' = LongAlgebraicNotation_Encode pos_castle ?m"
    by (simp add: LongAlgebraicNotation_Encode_def Let_def pos_castle_def Move_HasTag_def
        getCheckChar_def Square_String_def charForPromo_def)
  have u1: "AlgebraicNotation_Decode pos_castle ''Rb1'' = Inr ?m"
    by (simp add: AlgebraicNotation_Decode_def removeSubstrings_def Let_def pos_castle_def
        AlgebraicNotation_Encode_def Move_HasTag_def getCheckChar_def formS1_def
        Square_String_def charForPromo_def)
  have u2: "LongAlgebraicNotation_Decode pos_castle ''Ra1b1'' = Inr ?m"
    by (simp add: LongAlgebraicNotation_Decode_def removeSubstrings_def Let_def pos_castle_def
        LongAlgebraicNotation_Encode_def Move_HasTag_def getCheckChar_def
        Square_String_def charForPromo_def)
  have s1: "set [''!'', ''e.p.'', ''+'', ''!''] \<subseteq> set decorations"
    "count_list [''!'', ''e.p.'', ''+'', ''!''] ''e.p.'' \<le> 1"
    and s2: "set [''?'', ''#''] \<subseteq> set decorations" "count_list [''?'', ''#''] ''e.p.'' \<le> 1"
    by simp_all
  from mem d1 s1 e1 u1
    Decode_decoration_tolerance [of ?m pos_castle "[''!'', ''e.p.'', ''+'', ''!'']"
      "''Rb1''" "''R!b+1e.p.!''"]
  have r1: "AlgebraicNotation_Decode pos_castle ''R!b+1e.p.!'' = Inr ?m"
    by force
  from mem d2 s2 e2 u2
    Decode_decoration_tolerance [of ?m pos_castle "[''?'', ''#'']" "''Ra1b1''" "''Ra1#b1?''"]
  have r2: "LongAlgebraicNotation_Decode pos_castle ''Ra1#b1?'' = Inr ?m"
    by force
  from mem d1 e1 u1 r1 d2 e2 u2 r2 show ?thesis by (intro conjI)
qed

text \<open>
  The replacement of "e.p." is one pass: an "e.p." inserted into another "e.p." leaves
  an "e.p." behind. This is why "e.p." is inserted at most once above.
\<close>

lemma strip_nested_ep: "strip ''Rb1e.e.p.p.'' = ''Rb1e.p.''"
  by (simp add: strip_def removeSubstrings_def)

section \<open>Round trips\<close>

lemma File_String_char: "\<exists>c. File_String f = [c] \<and> c \<in> set ''abcdefgh''"
  by (cases f) simp_all

lemma Rank_String_char: "\<exists>c. Rank_String r = [c] \<and> c \<in> set ''12345678''"
  by (cases r) simp_all

lemma File_String_inj: "File_String f = File_String g \<Longrightarrow> f = g"
  by (cases f; cases g) simp_all

lemma Rank_String_inj: "Rank_String r = Rank_String k \<Longrightarrow> r = k"
  by (cases r; cases k) simp_all

lemma Square_String_inj: "Square_String a = Square_String b \<Longrightarrow> a = b"
  by (metis strToSquareMap_String option.inject)

lemma Square_String_chars:
  "\<exists>c d. Square_String sq = [c, d] \<and> c \<in> set ''abcdefgh'' \<and> d \<in> set ''12345678''"
  using File_String_char [of "Square_File sq"] Rank_String_char [of "Square_Rank sq"]
  by (auto simp: Square_String_def)

lemma charFromPieceType_cases:
  "charFromPieceType pt = [] \<or> (\<exists>u. charFromPieceType pt = [u] \<and> u \<in> set ''KQRBN'')"
  by (cases pt) simp_all

lemma charFromPieceType_inj:
  "pt \<noteq> NoPieceType \<Longrightarrow> pt' \<noteq> NoPieceType \<Longrightarrow>
   charFromPieceType pt = charFromPieceType pt' \<Longrightarrow> pt = pt'"
  by (cases pt; cases pt') simp_all

lemma charFromPieceType_Nil:
  "pt \<noteq> NoPieceType \<Longrightarrow> charFromPieceType pt = [] \<longleftrightarrow> pt = Pawn"
  by (cases pt) simp_all

lemma charForPromo_cases:
  "charForPromo pt = [] \<or> (\<exists>u. charForPromo pt = [CHR ''='', u] \<and> u \<in> set ''KQRBN'')"
  by (cases pt) (simp_all add: charForPromo_def)

lemma charForPromo_inj:
  "pt \<in> {NoPieceType, Queen, Rook, Bishop, Knight} \<Longrightarrow>
   pt' \<in> {NoPieceType, Queen, Rook, Bishop, Knight} \<Longrightarrow>
   charForPromo pt = charForPromo pt' \<Longrightarrow> pt = pt'"
  by (auto simp: charForPromo_def)

text \<open>Taking a text apart from both ends.\<close>

lemma split_promo:
  assumes e: "A @ p = A' @ p'"
    and A: "A \<noteq> []" "last A \<in> set ''12345678''"
    and A': "A' \<noteq> []" "last A' \<in> set ''12345678''"
    and p: "p = [] \<or> (\<exists>u. p = [CHR ''='', u] \<and> u \<in> set ''KQRBN'')"
    and p': "p' = [] \<or> (\<exists>u. p' = [CHR ''='', u] \<and> u \<in> set ''KQRBN'')"
  shows "A = A' \<and> p = p'"
proof -
  have no: "\<And>B u. u \<in> set ''KQRBN'' \<Longrightarrow> last (B @ [CHR ''='', u]) \<notin> set ''12345678''"
    by auto
  from p p' show ?thesis
  proof (elim disjE exE conjE)
    assume "p = []" "p' = []"
    with e show ?thesis by simp
  next
    fix u assume "p = []" "p' = [CHR ''='', u]" "u \<in> set ''KQRBN''"
    with e have "A = A' @ [CHR ''='', u]" by simp
    with A(2) no [of u A'] \<open>u \<in> set ''KQRBN''\<close> show ?thesis by simp
  next
    fix u assume "p = [CHR ''='', u]" "u \<in> set ''KQRBN''" "p' = []"
    with e have "A' = A @ [CHR ''='', u]" by simp
    with A'(2) no [of u A] \<open>u \<in> set ''KQRBN''\<close> show ?thesis by simp
  next
    fix u v assume "p = [CHR ''='', u]" "p' = [CHR ''='', v]"
    with e show ?thesis by simp
  qed
qed

lemma split_letter:
  assumes e: "pc @ R = pc' @ R'"
    and pc: "pc = [] \<or> (\<exists>u. pc = [u] \<and> u \<in> set ''KQRBN'')"
    and pc': "pc' = [] \<or> (\<exists>u. pc' = [u] \<and> u \<in> set ''KQRBN'')"
    and R: "set R \<inter> set ''KQRBN'' = {}" and R': "set R' \<inter> set ''KQRBN'' = {}"
  shows "pc = pc' \<and> R = R'"
  using pc pc'
proof (elim disjE exE conjE)
  assume "pc = []" "pc' = []"
  with e show ?thesis by simp
next
  fix u assume a: "pc = []" "pc' = [u]" "u \<in> set ''KQRBN''"
  with e have "u \<in> set R" by auto
  with R a(3) show ?thesis by blast
next
  fix u assume a: "pc = [u]" "u \<in> set ''KQRBN''" "pc' = []"
  with e have "u \<in> set R'" by (metis append_Cons append_Nil list.set_intros(1))
  with R' a(2) show ?thesis by blast
next
  fix u v assume "pc = [u]" "pc' = [v]"
  with e show ?thesis by simp
qed

lemma split_capture:
  assumes e: "q @ c = q' @ c'"
    and q: "CHR ''x'' \<notin> set q" and q': "CHR ''x'' \<notin> set q'"
    and c: "c = [] \<or> c = ''x''" and c': "c' = [] \<or> c' = ''x''"
  shows "q = q' \<and> c = c'"
  using c c'
proof (elim disjE)
  assume "c = []" "c' = []"
  with e show ?thesis by simp
next
  assume "c = []" "c' = ''x''"
  with e have "CHR ''x'' \<in> set q" by auto
  with q show ?thesis by simp
next
  assume "c = ''x''" "c' = []"
  with e have "CHR ''x'' \<in> set q'" by (metis in_set_conv_decomp append_Nil2)
  with q' show ?thesis by simp
next
  assume "c = ''x''" "c' = ''x''"
  with e show ?thesis by simp
qed

text \<open>The shape of the encodings.\<close>

lemma capChar_cases:
  "capChar pos m s = [] \<or> capChar pos m s = ''x''
   \<or> (Piece_Type (board pos (S1 m)) = Pawn \<and> s = []
       \<and> capChar pos m s = File_String (Square_File (S1 m)) @ ''x'')"
  by (simp add: capChar_def)

lemma AlgebraicNotation_Encode_body:
  "\<not> Move_HasTag m KingSideCastle \<Longrightarrow> \<not> Move_HasTag m QueenSideCastle \<Longrightarrow>
   AlgebraicNotation_Encode pos m =
     (charFromPieceType (Piece_Type (board pos (S1 m))) @ formS1 pos m
        @ capChar pos m (formS1 pos m) @ Square_String (S2 m) @ charForPromo (promo m))
     @ getCheckChar pos m"
  by (simp add: AlgebraicNotation_Encode_def Let_def capChar_def)

lemma LongAlgebraicNotation_Encode_body:
  "\<not> Move_HasTag m KingSideCastle \<Longrightarrow> \<not> Move_HasTag m QueenSideCastle \<Longrightarrow>
   LongAlgebraicNotation_Encode pos m =
     (charFromPieceType (Piece_Type (board pos (S1 m))) @ Square_String (S1 m)
        @ capChar pos m (Square_String (S1 m)) @ Square_String (S2 m)
        @ charForPromo (promo m))
     @ getCheckChar pos m"
  by (simp add: LongAlgebraicNotation_Encode_def Let_def capChar_def)

lemma Encode_castle:
  "Move_HasTag m KingSideCastle \<Longrightarrow>
     AlgebraicNotation_Encode pos m = ''O-O'' @ getCheckChar pos m
     \<and> LongAlgebraicNotation_Encode pos m = ''O-O'' @ getCheckChar pos m"
  "\<not> Move_HasTag m KingSideCastle \<Longrightarrow> Move_HasTag m QueenSideCastle \<Longrightarrow>
     AlgebraicNotation_Encode pos m = ''O-O-O'' @ getCheckChar pos m
     \<and> LongAlgebraicNotation_Encode pos m = ''O-O-O'' @ getCheckChar pos m"
  by (simp_all add: AlgebraicNotation_Encode_def LongAlgebraicNotation_Encode_def Let_def)

lemma strip_suffix:
  assumes "CHR ''.'' \<notin> set B" and "\<forall>c\<in>set B. unmarked c"
  shows "strip (B @ getCheckChar pos m) = B"
proof -
  have d: "CHR ''.'' \<notin> set (B @ getCheckChar pos m)"
    using assms(1) no_dot_tables(6) [of pos m] by simp
  have f: "filter unmarked B = B" using assms(2) by (simp add: filter_id_conv)
  have c: "filter unmarked (getCheckChar pos m) = []"
    by (simp add: getCheckChar_def)
  show ?thesis by (simp only: strip_no_dot [OF d] filter_append f c append_Nil2)
qed

lemma strip_castle:
  "strip (''O-O'' @ getCheckChar pos m) = ''O-O''"
  "strip (''O-O-O'' @ getCheckChar pos m) = ''O-O-O''"
  by (rule strip_suffix; simp)+

text \<open>The characters of the parts of an encoding.\<close>

lemma formS1_set:
  "set (formS1 pos m) \<subseteq> set (File_String (Square_File (S1 m)))
                         \<union> set (Rank_String (Square_Rank (S1 m)))"
  by (auto simp: formS1_def Let_def split: prod.splits if_splits)

lemma alphabet:
  "c \<in> set ''abcdefgh'' \<Longrightarrow>
     c \<notin> set ''KQRBN'' \<and> c \<notin> set ''12345678'' \<and> c \<noteq> CHR ''x'' \<and> c \<noteq> CHR ''=''
     \<and> c \<noteq> CHR ''O'' \<and> c \<noteq> CHR ''.'' \<and> unmarked c"
  "c \<in> set ''12345678'' \<Longrightarrow>
     c \<notin> set ''KQRBN'' \<and> c \<noteq> CHR ''x'' \<and> c \<noteq> CHR ''=''
     \<and> c \<noteq> CHR ''O'' \<and> c \<noteq> CHR ''.'' \<and> unmarked c"
  "c \<in> set ''KQRBN'' \<Longrightarrow>
     c \<noteq> CHR ''x'' \<and> c \<noteq> CHR ''='' \<and> c \<noteq> CHR ''O'' \<and> c \<noteq> CHR ''.'' \<and> unmarked c"
  by auto

lemma File_String_chars: "c \<in> set (File_String f) \<Longrightarrow> c \<in> set ''abcdefgh''"
  using File_String_char [of f] by (elim exE conjE) simp

lemma Rank_String_chars: "c \<in> set (Rank_String r) \<Longrightarrow> c \<in> set ''12345678''"
  using Rank_String_char [of r] by (elim exE conjE) simp

lemma formS1_chars:
  assumes "c \<in> set (formS1 pos m)"
  shows "c \<in> set ''abcdefgh'' \<or> c \<in> set ''12345678''"
proof -
  from assms formS1_set [of pos m]
  have "c \<in> set (File_String (Square_File (S1 m)))
        \<or> c \<in> set (Rank_String (Square_Rank (S1 m)))" by blast
  then show ?thesis using File_String_chars Rank_String_chars by blast
qed

lemma Square_String_chars':
  assumes "c \<in> set (Square_String sq)"
  shows "c \<in> set ''abcdefgh'' \<or> c \<in> set ''12345678''"
proof -
  from assms have "c \<in> set (File_String (Square_File sq))
        \<or> c \<in> set (Rank_String (Square_Rank sq))" by (simp add: Square_String_def)
  then show ?thesis using File_String_chars Rank_String_chars by blast
qed

lemma capChar_chars:
  assumes "c \<in> set (capChar pos m s)"
  shows "c \<in> set ''abcdefgh'' \<or> c = CHR ''x''"
proof -
  from capChar_cases [of pos m s] assms
  have "c = CHR ''x'' \<or> c \<in> set (File_String (Square_File (S1 m)))" by auto
  then show ?thesis using File_String_chars by blast
qed

lemma charFromPieceType_chars:
  "c \<in> set (charFromPieceType pt) \<Longrightarrow> c \<in> set ''KQRBN''"
  using charFromPieceType_cases [of pt] by (elim disjE exE conjE) simp_all

lemma charForPromo_chars:
  "c \<in> set (charForPromo pt) \<Longrightarrow> c = CHR ''='' \<or> c \<in> set ''KQRBN''"
  using charForPromo_cases [of pt] by (elim disjE exE conjE) auto

lemma body_chars:
  "c \<in> set (SAN_body pos m) \<Longrightarrow>
     c \<in> set ''abcdefgh'' \<or> c \<in> set ''12345678'' \<or> c \<in> set ''KQRBN''
     \<or> c = CHR ''x'' \<or> c = CHR ''=''"
  "c \<in> set (LAN_body pos m) \<Longrightarrow>
     c \<in> set ''abcdefgh'' \<or> c \<in> set ''12345678'' \<or> c \<in> set ''KQRBN''
     \<or> c = CHR ''x'' \<or> c = CHR ''=''"
proof -
  assume "c \<in> set (SAN_body pos m)"
  then have "c \<in> set (charFromPieceType (Piece_Type (board pos (S1 m))))
      \<or> c \<in> set (formS1 pos m) \<or> c \<in> set (capChar pos m (formS1 pos m))
      \<or> c \<in> set (Square_String (S2 m)) \<or> c \<in> set (charForPromo (promo m))"
    by (simp add: SAN_body_def)
  then show "c \<in> set ''abcdefgh'' \<or> c \<in> set ''12345678'' \<or> c \<in> set ''KQRBN''
     \<or> c = CHR ''x'' \<or> c = CHR ''=''"
    using charFromPieceType_chars formS1_chars capChar_chars Square_String_chars'
      charForPromo_chars by blast
next
  assume "c \<in> set (LAN_body pos m)"
  then have "c \<in> set (charFromPieceType (Piece_Type (board pos (S1 m))))
      \<or> c \<in> set (Square_String (S1 m)) \<or> c \<in> set (capChar pos m (Square_String (S1 m)))
      \<or> c \<in> set (Square_String (S2 m)) \<or> c \<in> set (charForPromo (promo m))"
    by (simp add: LAN_body_def)
  then show "c \<in> set ''abcdefgh'' \<or> c \<in> set ''12345678'' \<or> c \<in> set ''KQRBN''
     \<or> c = CHR ''x'' \<or> c = CHR ''=''"
    using charFromPieceType_chars capChar_chars Square_String_chars'
      charForPromo_chars by blast
qed

lemma body_char_plain:
  assumes "c \<in> set ''abcdefgh'' \<or> c \<in> set ''12345678'' \<or> c \<in> set ''KQRBN''
     \<or> c = CHR ''x'' \<or> c = CHR ''=''"
  shows "c \<noteq> CHR ''.'' \<and> c \<noteq> CHR ''O'' \<and> unmarked c"
  using assms alphabet [of c] by (elim disjE) simp_all

lemma body_plain:
  "CHR ''.'' \<notin> set (SAN_body pos m)" "CHR ''O'' \<notin> set (SAN_body pos m)"
  "\<forall>c\<in>set (SAN_body pos m). unmarked c"
  "CHR ''.'' \<notin> set (LAN_body pos m)" "CHR ''O'' \<notin> set (LAN_body pos m)"
  "\<forall>c\<in>set (LAN_body pos m). unmarked c"
  using body_chars [of _ pos m] body_char_plain by blast+

lemma strip_AlgebraicNotation_Encode:
  "strip (AlgebraicNotation_Encode pos m) =
     (if Move_HasTag m KingSideCastle then ''O-O''
      else if Move_HasTag m QueenSideCastle then ''O-O-O''
      else SAN_body pos m)"
proof -
  have "strip (AlgebraicNotation_Encode pos m) = SAN_body pos m"
    if nk: "\<not> Move_HasTag m KingSideCastle" and nq: "\<not> Move_HasTag m QueenSideCastle"
  proof -
    have e: "AlgebraicNotation_Encode pos m = SAN_body pos m @ getCheckChar pos m"
      using AlgebraicNotation_Encode_body [OF nk nq] by (simp only: SAN_body_def)
    show ?thesis
      by (simp only: e strip_suffix [OF body_plain(1) body_plain(3)])
  qed
  then show ?thesis
    using Encode_castle [of m pos] strip_castle [of pos m] by auto
qed

lemma strip_LongAlgebraicNotation_Encode:
  "strip (LongAlgebraicNotation_Encode pos m) =
     (if Move_HasTag m KingSideCastle then ''O-O''
      else if Move_HasTag m QueenSideCastle then ''O-O-O''
      else LAN_body pos m)"
proof -
  have "strip (LongAlgebraicNotation_Encode pos m) = LAN_body pos m"
    if nk: "\<not> Move_HasTag m KingSideCastle" and nq: "\<not> Move_HasTag m QueenSideCastle"
  proof -
    have e: "LongAlgebraicNotation_Encode pos m = LAN_body pos m @ getCheckChar pos m"
      using LongAlgebraicNotation_Encode_body [OF nk nq] by (simp only: LAN_body_def)
    show ?thesis
      by (simp only: e strip_suffix [OF body_plain(4) body_plain(6)])
  qed
  then show ?thesis
    using Encode_castle [of m pos] strip_castle [of pos m] by auto
qed

lemma body_not_castle:
  "SAN_body pos m \<noteq> ''O-O''" "SAN_body pos m \<noteq> ''O-O-O''"
  "LAN_body pos m \<noteq> ''O-O''" "LAN_body pos m \<noteq> ''O-O-O''"
proof -
  have o: "CHR ''O'' \<in> set ''O-O''" "CHR ''O'' \<in> set ''O-O-O''" by simp_all
  show "SAN_body pos m \<noteq> ''O-O''" using body_plain(2) [of pos m] o(1) by metis
  show "SAN_body pos m \<noteq> ''O-O-O''" using body_plain(2) [of pos m] o(2) by metis
  show "LAN_body pos m \<noteq> ''O-O''" using body_plain(5) [of pos m] o(1) by metis
  show "LAN_body pos m \<noteq> ''O-O-O''" using body_plain(5) [of pos m] o(2) by metis
qed

text \<open>The qualifier separates the moves of like pieces to one square.\<close>

lemma formS1_separates:
  assumes x: "x \<in> set (ValidMoves pos)" and y: "y \<in> set (ValidMoves pos)"
    and p: "board pos (S1 x) = board pos (S1 y)"
    and np: "Piece_Type (board pos (S1 x)) \<noteq> Pawn"
    and d: "S2 x = S2 y" and o: "S1 x \<noteq> S1 y"
  shows "formS1 pos x \<noteq> formS1 pos y"
proof
  assume eq: "formS1 pos x = formS1 pos y"
  have cy: "y \<in> set (competitors pos x)" using y p d o by (simp add: set_competitors)
  have cx: "x \<in> set (competitors pos y)" using x p d o by (simp add: set_competitors)
  from np p have npy: "Piece_Type (board pos (S1 y)) \<noteq> Pawn" by simp
  obtain a where a: "File_String (Square_File (S1 x)) = [a]" "a \<in> set ''abcdefgh''"
    using File_String_char by blast
  obtain b where b: "Rank_String (Square_Rank (S1 x)) = [b]" "b \<in> set ''12345678''"
    using Rank_String_char by blast
  obtain a' where a': "File_String (Square_File (S1 y)) = [a']" "a' \<in> set ''abcdefgh''"
    using File_String_char by blast
  obtain b' where b': "Rank_String (Square_Rank (S1 y)) = [b']" "b' \<in> set ''12345678''"
    using Rank_String_char by blast
  have ab: "a \<noteq> b'" "a' \<noteq> b" using alphabet(1) a(2) a'(2) b(2) b'(2) by blast+
  have ia: "a = a' \<Longrightarrow> Square_File (S1 x) = Square_File (S1 y)"
    using File_String_inj a(1) a'(1) by metis
  have ib: "b = b' \<Longrightarrow> Square_Rank (S1 x) = Square_Rank (S1 y)"
    using Rank_String_inj b(1) b'(1) by metis
  have nex: "competitors pos x \<noteq> []" using cy by auto
  have ney: "competitors pos y \<noteq> []" using cx by auto
  have R1: "Square_File (S1 x) = Square_File (S1 y) \<Longrightarrow> spec_rankReq pos x"
    using cy by (auto simp: spec_rankReq_def list_ex_iff)
  have R2: "Square_File (S1 x) = Square_File (S1 y) \<Longrightarrow> spec_rankReq pos y"
    using cx by (auto simp: spec_rankReq_def list_ex_iff)
  have F1: "Square_Rank (S1 x) = Square_Rank (S1 y) \<Longrightarrow> spec_fileReq pos x"
    using cy by (auto simp: spec_fileReq_def list_ex_iff)
  have F2: "Square_Rank (S1 x) = Square_Rank (S1 y) \<Longrightarrow> spec_fileReq pos y"
    using cx by (auto simp: spec_fileReq_def list_ex_iff)
  have sq: "Square_File (S1 x) = Square_File (S1 y) \<Longrightarrow>
            Square_Rank (S1 x) = Square_Rank (S1 y) \<Longrightarrow> False"
    using o by (simp add: Square.expand)
  have fx: "formS1 pos x =
     (if spec_fileReq pos x \<or> \<not> spec_rankReq pos x then [a] else [])
     @ (if spec_rankReq pos x then [b] else [])"
    using formS1_spec [OF np] nex by (simp add: a(1) b(1))
  have fy: "formS1 pos y =
     (if spec_fileReq pos y \<or> \<not> spec_rankReq pos y then [a'] else [])
     @ (if spec_rankReq pos y then [b'] else [])"
    using formS1_spec [OF npy] ney by (simp add: a'(1) b'(1))
  from eq have "(if spec_fileReq pos x \<or> \<not> spec_rankReq pos x then [a] else [])
     @ (if spec_rankReq pos x then [b] else [])
     = (if spec_fileReq pos y \<or> \<not> spec_rankReq pos y then [a'] else [])
     @ (if spec_rankReq pos y then [b'] else [])"
    by (simp only: fx fy)
  then show False
    using ab ia ib R1 R2 F1 F2 sq
    by (cases "spec_rankReq pos x"; cases "spec_rankReq pos y";
        cases "spec_fileReq pos x"; cases "spec_fileReq pos y") auto
qed

lemma generated_one:
  assumes "generated pos" "x \<in> set (ValidMoves pos)"
  shows "Piece_Type (board pos (S1 x)) \<noteq> NoPieceType"
    and "promo x \<in> {NoPieceType, Queen, Rook, Bishop, Knight}"
    and "Piece_Type (board pos (S1 x)) = Pawn \<Longrightarrow> \<not> Move_HasTag x Capture \<Longrightarrow>
         \<not> Move_HasTag x EnPassant \<Longrightarrow> Square_File (S1 x) = Square_File (S2 x)"
  using assms unfolding generated_def by blast+

lemma generated_two:
  assumes "generated pos" "x \<in> set (ValidMoves pos)" "y \<in> set (ValidMoves pos)"
  shows "Piece_Color (board pos (S1 x)) = Piece_Color (board pos (S1 y))"
    and "S1 x = S1 y \<Longrightarrow> S2 x = S2 y \<Longrightarrow> promo x = promo y \<Longrightarrow> x = y"
    and "Move_HasTag x KingSideCastle \<Longrightarrow> Move_HasTag y KingSideCastle \<Longrightarrow> x = y"
    and "Move_HasTag x QueenSideCastle \<Longrightarrow> Move_HasTag y QueenSideCastle \<Longrightarrow> x = y"
    and "Piece_Type (board pos (S1 x)) = Pawn \<Longrightarrow> Piece_Type (board pos (S1 y)) = Pawn \<Longrightarrow>
         S2 x = S2 y \<Longrightarrow> Square_File (S1 x) = Square_File (S1 y) \<Longrightarrow> S1 x = S1 y"
  using assms unfolding generated_def by blast+

lemma split_square:
  assumes "X @ Square_String a = X' @ Square_String b"
  shows "X = X' \<and> a = b"
proof -
  have "length (Square_String a) = length (Square_String b)" by simp
  with assms have "X = X' \<and> Square_String a = Square_String b" by simp
  then show ?thesis using Square_String_inj by blast
qed

lemma last_square:
  "X @ Square_String a \<noteq> []" "last (X @ Square_String a) \<in> set ''12345678''"
proof -
  obtain c d where s: "Square_String a = [c, d]" "d \<in> set ''12345678''"
    using Square_String_chars by blast
  show "X @ Square_String a \<noteq> []" by (simp add: s(1))
  have "last (X @ Square_String a) = d" by (simp add: s(1))
  with s(2) show "last (X @ Square_String a) \<in> set ''12345678''" by (simp only:)
qed

lemma no_letter_qualifier:
  "set (formS1 pos m @ capChar pos m s) \<inter> set ''KQRBN'' = {}"
  "set (Square_String sq @ capChar pos m s) \<inter> set ''KQRBN'' = {}"
proof -
  have n: "c \<in> set ''abcdefgh'' \<or> c \<in> set ''12345678'' \<or> c = CHR ''x''
           \<Longrightarrow> c \<notin> set ''KQRBN''" for c
    using alphabet [of c] by blast
  have "c \<in> set (formS1 pos m @ capChar pos m s) \<Longrightarrow> c \<notin> set ''KQRBN''" for c
  proof -
    assume "c \<in> set (formS1 pos m @ capChar pos m s)"
    then have "c \<in> set (formS1 pos m) \<or> c \<in> set (capChar pos m s)" by simp
    then have "c \<in> set ''abcdefgh'' \<or> c \<in> set ''12345678'' \<or> c = CHR ''x''"
      using formS1_chars capChar_chars by blast
    then show ?thesis by (rule n)
  qed
  then show "set (formS1 pos m @ capChar pos m s) \<inter> set ''KQRBN'' = {}" by blast
  have "c \<in> set (Square_String sq @ capChar pos m s) \<Longrightarrow> c \<notin> set ''KQRBN''" for c
  proof -
    assume "c \<in> set (Square_String sq @ capChar pos m s)"
    then have "c \<in> set (Square_String sq) \<or> c \<in> set (capChar pos m s)" by simp
    then have "c \<in> set ''abcdefgh'' \<or> c \<in> set ''12345678'' \<or> c = CHR ''x''"
      using Square_String_chars' capChar_chars by blast
    then show ?thesis by (rule n)
  qed
  then show "set (Square_String sq @ capChar pos m s) \<inter> set ''KQRBN'' = {}" by blast
qed

lemma no_x_qualifier:
  "CHR ''x'' \<notin> set (formS1 pos m)" "CHR ''x'' \<notin> set (Square_String sq)"
  using formS1_chars [of "CHR ''x''" pos m] Square_String_chars' [of "CHR ''x''" sq]
    alphabet(1,2) [of "CHR ''x''"] by blast+

lemma capChar_piece:
  "Piece_Type (board pos (S1 m)) \<noteq> Pawn \<or> s \<noteq> [] \<Longrightarrow>
   capChar pos m s = [] \<or> capChar pos m s = ''x''"
  by (auto simp: capChar_def)

lemma capChar_Pawn:
  "Piece_Type (board pos (S1 m)) = Pawn \<Longrightarrow>
   capChar pos m [] =
     (if Move_HasTag m Capture \<or> Move_HasTag m EnPassant
      then File_String (Square_File (S1 m)) @ ''x'' else [])"
  by (simp add: capChar_def)

lemma formS1_Pawn: "Piece_Type (board pos (S1 m)) = Pawn \<Longrightarrow> formS1 pos m = []"
  by (simp add: formS1_def)

text \<open>Two legal moves with the same text are the same move.\<close>

lemma SAN_body_inj:
  assumes g: "generated pos" and x: "x \<in> set (ValidMoves pos)"
    and y: "y \<in> set (ValidMoves pos)"
    and e: "SAN_body pos x = SAN_body pos y"
  shows "x = y"
proof -
  let ?P = "\<lambda>m. charFromPieceType (Piece_Type (board pos (S1 m)))"
  let ?QC = "\<lambda>m. formS1 pos m @ capChar pos m (formS1 pos m)"
  let ?R = "\<lambda>m. charForPromo (promo m)"
  have e1: "((?P x @ ?QC x) @ Square_String (S2 x)) @ ?R x
          = ((?P y @ ?QC y) @ Square_String (S2 y)) @ ?R y"
    using e by (simp add: SAN_body_def)
  from split_promo [OF e1 last_square last_square charForPromo_cases charForPromo_cases]
  have A: "(?P x @ ?QC x) @ Square_String (S2 x) = (?P y @ ?QC y) @ Square_String (S2 y)"
    and R: "?R x = ?R y" by blast+
  from R have pr: "promo x = promo y"
    using charForPromo_inj generated_one(2) [OF g x] generated_one(2) [OF g y] by blast
  from split_square [OF A] have PQC: "?P x @ ?QC x = ?P y @ ?QC y" and d: "S2 x = S2 y"
    by blast+
  from split_letter [OF PQC charFromPieceType_cases charFromPieceType_cases
      no_letter_qualifier(1) no_letter_qualifier(1)]
  have P: "?P x = ?P y" and QC: "?QC x = ?QC y" by blast+
  from P have ty: "Piece_Type (board pos (S1 x)) = Piece_Type (board pos (S1 y))"
    using charFromPieceType_inj generated_one(1) [OF g x] generated_one(1) [OF g y] by blast
  with generated_two(1) [OF g x y] have pc: "board pos (S1 x) = board pos (S1 y)"
    by (simp add: Piece_eq_iff [of "board pos (S1 x)"])
  show ?thesis
  proof (cases "Piece_Type (board pos (S1 x)) = Pawn")
    case True
    with ty have py: "Piece_Type (board pos (S1 y)) = Pawn" by simp
    from QC have C: "capChar pos x [] = capChar pos y []"
      by (simp add: formS1_Pawn [OF True] formS1_Pawn [OF py])
    have fl: "Square_File (S1 x) = Square_File (S1 y)"
    proof (cases "Move_HasTag x Capture \<or> Move_HasTag x EnPassant")
      case cx: True
      show ?thesis
      proof (cases "Move_HasTag y Capture \<or> Move_HasTag y EnPassant")
        case True
        with cx C have "File_String (Square_File (S1 x)) = File_String (Square_File (S1 y))"
          by (simp add: capChar_Pawn [OF \<open>Piece_Type (board pos (S1 x)) = Pawn\<close>]
              capChar_Pawn [OF py])
        then show ?thesis by (rule File_String_inj)
      next
        case False
        with cx C show ?thesis
          by (simp add: capChar_Pawn [OF \<open>Piece_Type (board pos (S1 x)) = Pawn\<close>]
              capChar_Pawn [OF py])
      qed
    next
      case nx: False
      have ny: "\<not> (Move_HasTag y Capture \<or> Move_HasTag y EnPassant)"
      proof
        assume "Move_HasTag y Capture \<or> Move_HasTag y EnPassant"
        with nx C show False
          by (simp add: capChar_Pawn [OF True] capChar_Pawn [OF py])
      qed
      from generated_one(3) [OF g x True] nx
      have "Square_File (S1 x) = Square_File (S2 x)" by blast
      moreover from generated_one(3) [OF g y py] ny
      have "Square_File (S1 y) = Square_File (S2 y)" by blast
      ultimately show ?thesis using d by simp
    qed
    from generated_two(5) [OF g x y True py d fl] have "S1 x = S1 y" .
    then show ?thesis using generated_two(2) [OF g x y] d pr by blast
  next
    case False
    with ty have ny: "Piece_Type (board pos (S1 y)) \<noteq> Pawn" by simp
    from split_capture [OF QC no_x_qualifier(1) no_x_qualifier(1)
        capChar_piece capChar_piece] False ny
    have Q: "formS1 pos x = formS1 pos y" by blast
    show ?thesis
    proof (cases "S1 x = S1 y")
      case True
      then show ?thesis using generated_two(2) [OF g x y] d pr by blast
    next
      case o: False
      from formS1_separates [OF x y pc False d o] Q show ?thesis by blast
    qed
  qed
qed

lemma LAN_body_inj:
  assumes g: "generated pos" and x: "x \<in> set (ValidMoves pos)"
    and y: "y \<in> set (ValidMoves pos)"
    and e: "LAN_body pos x = LAN_body pos y"
  shows "x = y"
proof -
  let ?P = "\<lambda>m. charFromPieceType (Piece_Type (board pos (S1 m)))"
  let ?QC = "\<lambda>m. Square_String (S1 m) @ capChar pos m (Square_String (S1 m))"
  let ?R = "\<lambda>m. charForPromo (promo m)"
  have e1: "((?P x @ ?QC x) @ Square_String (S2 x)) @ ?R x
          = ((?P y @ ?QC y) @ Square_String (S2 y)) @ ?R y"
    using e by (simp add: LAN_body_def)
  from split_promo [OF e1 last_square last_square charForPromo_cases charForPromo_cases]
  have A: "(?P x @ ?QC x) @ Square_String (S2 x) = (?P y @ ?QC y) @ Square_String (S2 y)"
    and R: "?R x = ?R y" by blast+
  from R have pr: "promo x = promo y"
    using charForPromo_inj generated_one(2) [OF g x] generated_one(2) [OF g y] by blast
  from split_square [OF A] have PQC: "?P x @ ?QC x = ?P y @ ?QC y" and d: "S2 x = S2 y"
    by blast+
  from split_letter [OF PQC charFromPieceType_cases charFromPieceType_cases
      no_letter_qualifier(2) no_letter_qualifier(2)]
  have QC: "?QC x = ?QC y" by blast
  have nx: "Square_String (S1 x) \<noteq> []" and ny: "Square_String (S1 y) \<noteq> []"
    using last_square(1) [of "[]"] by simp_all
  from split_capture [OF QC no_x_qualifier(2) no_x_qualifier(2)
      capChar_piece capChar_piece] nx ny
  have "Square_String (S1 x) = Square_String (S1 y)" by blast
  then have "S1 x = S1 y" by (rule Square_String_inj)
  then show ?thesis using generated_two(2) [OF g x y] d pr by blast
qed

lemma castle_text_cases:
  assumes "(if kx then ''O-O'' else if qx then ''O-O-O'' else bx)
         = (if ky then ''O-O'' else if qy then ''O-O-O'' else bz)"
    and "bx \<noteq> ''O-O''" "bx \<noteq> ''O-O-O''" "bz \<noteq> ''O-O''" "bz \<noteq> ''O-O-O''"
  shows "(kx \<and> ky) \<or> (qx \<and> qy) \<or> bx = bz"
  using assms by (auto split: if_splits)

lemma AlgebraicNotation_text_inj:
  assumes g: "generated pos" and x: "x \<in> set (ValidMoves pos)"
    and y: "y \<in> set (ValidMoves pos)"
    and e: "strip (AlgebraicNotation_Encode pos x) = strip (AlgebraicNotation_Encode pos y)"
  shows "x = y"
proof -
  from e have "(if Move_HasTag x KingSideCastle then ''O-O''
      else if Move_HasTag x QueenSideCastle then ''O-O-O'' else SAN_body pos x)
    = (if Move_HasTag y KingSideCastle then ''O-O''
      else if Move_HasTag y QueenSideCastle then ''O-O-O'' else SAN_body pos y)"
    by (simp only: strip_AlgebraicNotation_Encode)
  from castle_text_cases [OF this body_not_castle(1,2) body_not_castle(1,2)]
  show ?thesis
    using generated_two(3,4) [OF g x y] SAN_body_inj [OF g x y] by blast
qed

lemma LongAlgebraicNotation_text_inj:
  assumes g: "generated pos" and x: "x \<in> set (ValidMoves pos)"
    and y: "y \<in> set (ValidMoves pos)"
    and e: "strip (LongAlgebraicNotation_Encode pos x)
            = strip (LongAlgebraicNotation_Encode pos y)"
  shows "x = y"
proof -
  from e have "(if Move_HasTag x KingSideCastle then ''O-O''
      else if Move_HasTag x QueenSideCastle then ''O-O-O'' else LAN_body pos x)
    = (if Move_HasTag y KingSideCastle then ''O-O''
      else if Move_HasTag y QueenSideCastle then ''O-O-O'' else LAN_body pos y)"
    by (simp only: strip_LongAlgebraicNotation_Encode)
  from castle_text_cases [OF this body_not_castle(3,4) body_not_castle(3,4)]
  show ?thesis
    using generated_two(3,4) [OF g x y] LAN_body_inj [OF g x y] by blast
qed

lemma Square_String_two: "\<exists>a b. Square_String sq = [a, b]"
  by (cases sq; rename_tac f r; case_tac f; case_tac r) (simp_all add: Square_String_def)

lemma UCINotation_Encode_wellformed:
  assumes "promo m \<in> {NoPieceType, Queen, Rook, Bishop, Knight}"
  shows "\<not> UCI_malformed (UCINotation_Encode p m)"
    and "strToSquareMap (take 2 (UCINotation_Encode p m)) = Some (S1 m)"
    and "strToSquareMap (take 2 (drop 2 (UCINotation_Encode p m))) = Some (S2 m)"
    and "UCI_promo (UCINotation_Encode p m) = promo m"
proof -
  obtain a b where s1: "Square_String (S1 m) = [a, b]"
    using Square_String_two by blast
  obtain c d where s2: "Square_String (S2 m) = [c, d]"
    using Square_String_two by blast
  have e: "UCINotation_Encode p m = [a, b, c, d] @ PieceType_String (promo m)"
    by (simp add: UCINotation_Encode_def s1 s2)
  have m1: "strToSquareMap [a, b] = Some (S1 m)"
    using strToSquareMap_String [of "S1 m"] by (simp only: s1)
  have m2: "strToSquareMap [c, d] = Some (S2 m)"
    using strToSquareMap_String [of "S2 m"] by (simp only: s2)
  from assms consider "promo m = NoPieceType" | "promo m = Queen" | "promo m = Rook"
    | "promo m = Bishop" | "promo m = Knight" by auto
  then have "\<not> UCI_malformed (UCINotation_Encode p m)
    \<and> strToSquareMap (take 2 (UCINotation_Encode p m)) = Some (S1 m)
    \<and> strToSquareMap (take 2 (drop 2 (UCINotation_Encode p m))) = Some (S2 m)
    \<and> UCI_promo (UCINotation_Encode p m) = promo m"
    by cases (simp_all add: e UCI_malformed_def UCI_promo_def m1 m2
        del: strToSquareMap.simps)
  then show "\<not> UCI_malformed (UCINotation_Encode p m)"
    and "strToSquareMap (take 2 (UCINotation_Encode p m)) = Some (S1 m)"
    and "strToSquareMap (take 2 (drop 2 (UCINotation_Encode p m))) = Some (S2 m)"
    and "UCI_promo (UCINotation_Encode p m) = promo m"
    by simp_all
qed

lemma UCINotation_round_trip:
  assumes "promo m \<in> {NoPieceType, Queen, Rook, Bishop, Knight}"
  shows "UCINotation_Decode (Some pos) (UCINotation_Encode p m)
         = Inr (m\<lparr>tags := UCI_tags pos (S1 m) (S2 m)\<rparr>)"
    and "UCINotation_Decode None (UCINotation_Encode p m) = Inr (m\<lparr>tags := {}\<rparr>)"
proof -
  note w = UCINotation_Encode_wellformed [OF assms, of p]
  show "UCINotation_Decode (Some pos) (UCINotation_Encode p m)
         = Inr (m\<lparr>tags := UCI_tags pos (S1 m) (S2 m)\<rparr>)"
    by (simp add: UCINotation_Decode_pos [OF w(1) w(2) w(3)] w(4))
  show "UCINotation_Decode None (UCINotation_Encode p m) = Inr (m\<lparr>tags := {}\<rparr>)"
    by (simp add: UCINotation_Decode_nil [OF w(1) w(2) w(3)] w(4))
qed

lemma AlgebraicNotation_round_trip:
  assumes g: "generated pos" and m: "m \<in> set (ValidMoves pos)"
  shows "AlgebraicNotation_Decode pos (AlgebraicNotation_Encode pos m) = Inr m"
proof -
  from AlgebraicNotation_Decode_same_text [OF m refl]
  obtain m' where d: "AlgebraicNotation_Decode pos (AlgebraicNotation_Encode pos m) = Inr m'"
    and m': "m' \<in> set (ValidMoves pos)"
    and e: "strip (AlgebraicNotation_Encode pos m') = strip (AlgebraicNotation_Encode pos m)"
    by blast
  from AlgebraicNotation_text_inj [OF g m' m e] d show ?thesis by simp
qed

lemma LongAlgebraicNotation_round_trip:
  assumes g: "generated pos" and m: "m \<in> set (ValidMoves pos)"
  shows "LongAlgebraicNotation_Decode pos (LongAlgebraicNotation_Encode pos m) = Inr m"
proof -
  from LongAlgebraicNotation_Decode_same_text [OF m refl]
  obtain m' where
    d: "LongAlgebraicNotation_Decode pos (LongAlgebraicNotation_Encode pos m) = Inr m'"
    and m': "m' \<in> set (ValidMoves pos)"
    and e: "strip (LongAlgebraicNotation_Encode pos m')
            = strip (LongAlgebraicNotation_Encode pos m)"
    by blast
  from LongAlgebraicNotation_text_inj [OF g m' m e] d show ?thesis by simp
qed

text \<open>
  Claim C1, as amended. Let the legal-move list of the position be as move generation
  gives it (\<open>generated\<close>) and let \<open>m\<close> be one of its moves. Standard algebraic decoding of
  the standard algebraic encoding of \<open>m\<close> returns \<open>m\<close>, and long algebraic decoding of the
  long algebraic encoding of \<open>m\<close> returns \<open>m\<close>. UCI decoding of the UCI encoding of \<open>m\<close>
  returns \<open>m\<close> with its tags replaced by the inferred ones, and by no tags with the nil
  position. Check is never inferred, so the result is \<open>m\<close> exactly when the tags of \<open>m\<close>
  are the inferred ones.
\<close>

theorem Decode_Encode_round_trip:
  assumes "generated pos" and "m \<in> set (ValidMoves pos)"
  shows "AlgebraicNotation_Decode pos (AlgebraicNotation_Encode pos m) = Inr m
   \<and> LongAlgebraicNotation_Decode pos (LongAlgebraicNotation_Encode pos m) = Inr m
   \<and> UCINotation_Decode (Some pos) (UCINotation_Encode (Some pos) m)
       = Inr (m\<lparr>tags := UCI_tags pos (S1 m) (S2 m)\<rparr>)
   \<and> UCINotation_Decode None (UCINotation_Encode None m) = Inr (m\<lparr>tags := {}\<rparr>)
   \<and> Check \<notin> UCI_tags pos (S1 m) (S2 m)
   \<and> (UCINotation_Decode (Some pos) (UCINotation_Encode (Some pos) m) = Inr m
        \<longleftrightarrow> tags m = UCI_tags pos (S1 m) (S2 m))"
proof -
  note p = generated_one(2) [OF assms]
  have c: "Check \<notin> UCI_tags pos (S1 m) (S2 m)"
    by (simp add: UCI_tags_def)
  have eq: "m\<lparr>tags := UCI_tags pos (S1 m) (S2 m)\<rparr> = m \<longleftrightarrow> tags m = UCI_tags pos (S1 m) (S2 m)"
    by (cases m) auto
  have u: "UCINotation_Decode (Some pos) (UCINotation_Encode (Some pos) m) = Inr m
        \<longleftrightarrow> tags m = UCI_tags pos (S1 m) (S2 m)"
    unfolding UCINotation_round_trip(1) [OF p] using eq by simp
  from AlgebraicNotation_round_trip [OF assms] LongAlgebraicNotation_round_trip [OF assms]
    UCINotation_round_trip(1) [OF p, of pos "Some pos"]
    UCINotation_round_trip(2) [OF p, of None] c u
  show ?thesis by (intro conjI)
qed

theorem Decode_Encode_round_trip_witness:
  "generated pos_rooks
   \<and> Mv (Sq FileH Rank1) (Sq FileB Rank1) {} \<in> set (ValidMoves pos_rooks)
   \<and> AlgebraicNotation_Encode pos_rooks (Mv (Sq FileH Rank1) (Sq FileB Rank1) {}) = ''Rhb1''
   \<and> AlgebraicNotation_Decode pos_rooks ''Rhb1'' = Inr (Mv (Sq FileH Rank1) (Sq FileB Rank1) {})
   \<and> LongAlgebraicNotation_Encode pos_rooks (Mv (Sq FileH Rank1) (Sq FileB Rank1) {})
       = ''Rh1b1''
   \<and> LongAlgebraicNotation_Decode pos_rooks ''Rh1b1''
       = Inr (Mv (Sq FileH Rank1) (Sq FileB Rank1) {})
   \<and> UCINotation_Encode (Some pos_rooks) (Mv (Sq FileH Rank1) (Sq FileB Rank1) {}) = ''h1b1''
   \<and> UCINotation_Decode (Some pos_rooks) ''h1b1''
       = Inr (Mv (Sq FileH Rank1) (Sq FileB Rank1) {})"
proof -
  let ?m = "Mv (Sq FileH Rank1) (Sq FileB Rank1) {}"
  have g: "generated pos_rooks"
    by (simp add: generated_def pos_rooks_def Move_HasTag_def)
  have mem: "?m \<in> set (ValidMoves pos_rooks)"
    by (simp add: pos_rooks_def)
  have ea: "AlgebraicNotation_Encode pos_rooks ?m = ''Rhb1''"
    by (simp add: AlgebraicNotation_Encode_def Let_def pos_rooks_def Move_HasTag_def
        getCheckChar_def formS1_def Square_String_def charForPromo_def)
  have el: "LongAlgebraicNotation_Encode pos_rooks ?m = ''Rh1b1''"
    by (simp add: LongAlgebraicNotation_Encode_def Let_def pos_rooks_def Move_HasTag_def
        getCheckChar_def Square_String_def charForPromo_def)
  have eu: "UCINotation_Encode (Some pos_rooks) ?m = ''h1b1''"
    by (simp add: UCINotation_Encode_def Square_String_def)
  have tg: "?m\<lparr>tags := UCI_tags pos_rooks (S1 ?m) (S2 ?m)\<rparr> = ?m"
    by (simp add: UCI_tags_def pos_rooks_def)
  note r = Decode_Encode_round_trip [OF g mem]
  from r have da: "AlgebraicNotation_Decode pos_rooks ''Rhb1'' = Inr ?m"
    by (simp only: ea)
  from r have dl: "LongAlgebraicNotation_Decode pos_rooks ''Rh1b1'' = Inr ?m"
    by (simp only: el)
  from r have du: "UCINotation_Decode (Some pos_rooks) ''h1b1'' = Inr ?m"
    by (simp only: eu tg)
  from g mem ea da el dl eu du show ?thesis by (intro conjI)
qed

text \<open>
  The rook move from a1 to a8 is a legal move of the example position and gives check.
  UCI decoding of its UCI encoding, with the position, returns the move without the
  Check tag, which is another move.
\<close>

theorem UCINotation_round_trip_counterexample:
  "Mv A1 (Sq FileA Rank8) {Check} \<in> set (ValidMoves pos_castle)
   \<and> UCINotation_Decode (Some pos_castle)
        (UCINotation_Encode (Some pos_castle) (Mv A1 (Sq FileA Rank8) {Check}))
       = Inr (Mv A1 (Sq FileA Rank8) {})
   \<and> Mv A1 (Sq FileA Rank8) {} \<noteq> Mv A1 (Sq FileA Rank8) {Check}"
  by (simp add: pos_castle_def UCINotation_Encode_def Square_String_def
      UCINotation_Decode_def Let_def UCINotation_Decode_tags_def Move_addTag_def)

section \<open>UCI encoding ignores the position\<close>

text \<open>
  Claim C10. The UCI encoding of a move is a function of the move alone: any two
  positions, the nil position included, give the same text.
\<close>

theorem UCINotation_Encode_position_independent:
  "UCINotation_Encode p1 m = UCINotation_Encode p2 m"
  by (simp add: UCINotation_Encode_def)

end
